theory Spec2Isabelle
  imports Complex_Main
begin

section \<open>Configuration constants of main.py\<close>

text \<open>
  Python floats are modelled as exact reals: every comparison and quotient below is the
  mathematical one. Vote counts and the quantity precision are Python ints.
\<close>

definition TP_THRESHOLD :: real where
  "TP_THRESHOLD = 106 / 100"

definition SL_THRESHOLD :: real where
  "SL_THRESHOLD = 97 / 100"

definition STRONG_SELL_THRESHOLD :: int where
  "STRONG_SELL_THRESHOLD = 13"

definition WEAK_SELL_THRESHOLD :: int where
  "WEAK_SELL_THRESHOLD = 8"

definition QUICK_TP_SL_CHECK_INTERVAL :: int where
  "QUICK_TP_SL_CHECK_INTERVAL = 15"

definition FULL_TRADING_CYCLE_INTERVAL :: int where
  "FULL_TRADING_CYCLE_INTERVAL = 600"

definition RESERVE_CASH :: real where
  "RESERVE_CASH = 20000"

section \<open>The portfolio file: purchase ledger\<close>

text \<open>
  One ledger entry per coin, as the dictionaries stored under \<open>portfolio[coin]\<close>. The
  \<open>timestamp\<close> key is absent from a freshly created entry and written by the first buy.
  Writing the file (\<open>save_portfolio\<close>) changes nothing the program reads back during a
  run, so it has no counterpart here.
\<close>

record entry =
  buy_price :: real
  quantity :: real
  timestamp :: "string option"

type_synonym portfolio = "string \<rightharpoonup> entry"

definition coin_of :: "string \<Rightarrow> string" where
  \<comment> \<open>\<open>pair.split('/')[0]\<close>\<close>
  "coin_of pair = takeWhile (\<lambda>c. c \<noteq> CHR ''/'') pair"

definition pair_of :: "string \<Rightarrow> string" where
  \<comment> \<open>\<open>f"{coin}/USD"\<close>\<close>
  "pair_of coin = coin @ ''/USD''"

definition update_portfolio_on_buy ::
  "string \<Rightarrow> string \<Rightarrow> real \<Rightarrow> real \<Rightarrow> portfolio \<Rightarrow> portfolio" where
  "update_portfolio_on_buy ts pair qty current_price pf =
    (let coin = coin_of pair;
         e = (case pf coin of
                None \<Rightarrow> \<lparr>buy_price = 0, quantity = 0, timestamp = None\<rparr>
              | Some e0 \<Rightarrow> e0);
         old_qty = quantity e;
         old_price = buy_price e;
         new_total_qty = old_qty + qty;
         e1 = (if new_total_qty > 0
               then e\<lparr>buy_price := (old_price * old_qty + current_price * qty) / new_total_qty\<rparr>
               else e)
     in pf(coin \<mapsto> e1\<lparr>quantity := new_total_qty, timestamp := Some ts\<rparr>))"

section \<open>Data exchanged with the collaborators\<close>

text \<open>
  The balance response: \<open>Success\<close> and the \<open>SpotWallet\<close> dictionary, whose items are kept in
  iteration order. A key read with \<open>.get(k, 0)\<close> holds the default \<open>0\<close> when absent.
\<close>

record amounts =
  Free :: real
  Lock :: real

record balance_data =
  Success :: bool
  SpotWallet :: "(string \<times> amounts) list"

text \<open>The ticker response: the \<open>Data\<close> dictionary from pair to market data.\<close>

record market =
  LastPrice :: real

record ticker_data =
  Data :: "(string \<times> market) list"

text \<open>
  One technical signal, as \<open>get_all_technicals\<close> builds it. The technicals dictionary is
  an association list in iteration order; the price is taken to be a number.
\<close>

record signal_data =
  price :: real
  sell :: int
  neutral :: int
  buy :: int
  signal :: string
  score :: int

type_synonym technicals = "(string \<times> signal_data) list"

datatype side = SELL | BUY

record order =
  o_pair :: string
  o_side :: side
  o_quantity :: real

text \<open>The \<open>OrderDetail\<close> of a successful order; \<open>None\<close> stands for a failed order.\<close>

record order_detail =
  UnitChange :: real
  FilledQuantity :: real

section \<open>The log\<close>

text \<open>
  The program reports each decision with a log line and places each order right after
  the line that announces it. The trace keeps those lines that the properties below read:
  the outcome of each TP/SL check, every call of \<open>place_order\<close> with the reason announced
  and the result, the allocation announced for a buy, the headers of the phases, and the
  line the handler of the main loop writes when an exception reaches it.
\<close>

datatype verdict = TAKE_PROFIT | STOP_LOSS | SAFE | NO_DATA

datatype reason = TP | SL | UNKNOWN | STRONG_SELL | WEAK_SELL_REBALANCE | STRONG_BUY

datatype phase =
  FULL_CYCLE | QUICK_CHECK | TP_SL_SELLS | SELLS | BUYS | WEAK_SELL_REBALANCING

datatype event =
    Checked string verdict
  | Placed reason order "order_detail option"
  | Buying string nat real real
  | Enter phase
  | Unhandled_error

text \<open>
  What a run mutates: the ledger and the log. The order gateway answers an order given
  everything logged before it; the precision table and the clock are read only.
\<close>

record state =
  ledger :: portfolio
  trace :: "event list"

record env =
  PAIR_PRECISION :: "string \<rightharpoonup> int"
  place_order :: "event list \<Rightarrow> order \<Rightarrow> order_detail option"
  clock :: string

text \<open>What the collaborators answer during one check or cycle.\<close>

record snapshot =
  get_balance :: "balance_data option"
  get_ticker :: "ticker_data option"
  get_all_technicals :: technicals

definition emit :: "event \<Rightarrow> state \<Rightarrow> state" where
  "emit e st = st\<lparr>trace := trace st @ [e]\<rparr>"

section \<open>Positions and valuation\<close>

definition get_current_positions :: "balance_data option \<Rightarrow> (string \<times> real) list" where
  "get_current_positions bd =
    (case bd of
       None \<Rightarrow> []
     | Some b \<Rightarrow>
         if Success b
         then [(coin, Free a + Lock a). (coin, a) \<leftarrow> SpotWallet b,
                 coin \<noteq> ''USD'' \<and> Free a + Lock a > 1 / 10 ^ 8]
         else [])"

definition get_total_cash_balance :: "balance_data option \<Rightarrow> real" where
  "get_total_cash_balance bd =
    (case bd of
       None \<Rightarrow> 0
     | Some b \<Rightarrow>
         if Success b
         then (case map_of (SpotWallet b) ''USD'' of None \<Rightarrow> 0 | Some a \<Rightarrow> Free a)
         else 0)"

definition get_total_portfolio_value :: "balance_data option \<Rightarrow> ticker_data option \<Rightarrow> real" where
  "get_total_portfolio_value bd td =
    (case td of
       None \<Rightarrow> 0
     | Some t \<Rightarrow>
         if Data t = [] then 0
         else sum_list
           [(case map_of (Data t) (pair_of coin) of
               None \<Rightarrow> 0
             | Some m \<Rightarrow> if LastPrice m > 0 then q * LastPrice m else 0).
            (coin, q) \<leftarrow> get_current_positions bd])"

definition adjust_quantity :: "int \<Rightarrow> real \<Rightarrow> real" where
  \<comment> \<open>\<open>factor = 10 ** precision; math.floor(quantity * factor) / factor\<close>\<close>
  "adjust_quantity precision q =
    (let factor = (10::real) powi precision
     in real_of_int \<lfloor>q * factor\<rfloor> / factor)"

section \<open>Selling a position\<close>

definition zero_quantity :: "string \<Rightarrow> portfolio \<Rightarrow> portfolio" where
  \<comment> \<open>\<open>if coin in portfolio: portfolio[coin]['quantity'] = 0\<close>\<close>
  "zero_quantity coin pf =
    (case pf coin of None \<Rightarrow> pf | Some e \<Rightarrow> pf(coin \<mapsto> e\<lparr>quantity := 0\<rparr>))"

text \<open>
  The tail shared by every selling loop: look the precision up, truncate the quantity,
  place a market sell when something tradable is left, and on success add the proceeds
  and zero the ledger quantity. The quick check writes the quantity without the membership
  test, having skipped every coin without a ledger entry before.
\<close>

definition sell_position ::
  "env \<Rightarrow> reason \<Rightarrow> string \<Rightarrow> string \<Rightarrow> real \<Rightarrow> state \<times> real \<Rightarrow> state \<times> real" where
  "sell_position ev why coin pair q acc =
    (case acc of (st, total_received) \<Rightarrow>
      (case PAIR_PRECISION ev pair of
         None \<Rightarrow> (st, total_received)
       | Some precision \<Rightarrow>
           (let adjusted_quantity = adjust_quantity precision q in
            if adjusted_quantity > 0 then
              (let ord = \<lparr>o_pair = pair, o_side = SELL, o_quantity = adjusted_quantity\<rparr>;
                   res = place_order ev (trace st) ord;
                   st1 = emit (Placed why ord res) st
               in case res of
                    None \<Rightarrow> (st1, total_received)
                  | Some od \<Rightarrow>
                      (st1\<lparr>ledger := zero_quantity coin (ledger st1)\<rparr>,
                       total_received + UnitChange od))
            else (st, total_received))))"

section \<open>The quick TP/SL check\<close>

text \<open>
  One iteration of the loop over the positions is \<open>quick_step\<close>; the chain of tests at
  its head, up to the branch taken, is \<open>quick_verdict\<close>. A skipped position is logged
  as \<open>NO_DATA\<close>.
\<close>

definition quick_verdict :: "portfolio \<Rightarrow> (string \<times> market) list \<Rightarrow> string \<Rightarrow> verdict" where
  "quick_verdict pf ticker_dict coin =
    (case pf coin of
       None \<Rightarrow> NO_DATA
     | Some e \<Rightarrow>
         if buy_price e \<le> 0 then NO_DATA
         else
           (case map_of ticker_dict (pair_of coin) of
              None \<Rightarrow> NO_DATA
            | Some market_data \<Rightarrow>
                (let current_price = LastPrice market_data in
                 if current_price \<le> 0 then NO_DATA
                 else
                   (let price_ratio =
                          (if buy_price e > 0 then current_price / buy_price e else 1)
                    in if price_ratio \<ge> TP_THRESHOLD then TAKE_PROFIT
                       else if price_ratio \<le> SL_THRESHOLD then STOP_LOSS
                       else SAFE))))"

definition quick_step ::
  "env \<Rightarrow> (string \<times> market) list \<Rightarrow> string \<times> real \<Rightarrow> state \<times> real \<Rightarrow> state \<times> real" where
  "quick_step ev ticker_dict pos acc =
    (case pos of (coin, q) \<Rightarrow>
      (case acc of (st, total_received) \<Rightarrow>
        (let v = quick_verdict (ledger st) ticker_dict coin;
             st1 = emit (Checked coin v) st
         in case v of
              TAKE_PROFIT \<Rightarrow> sell_position ev TP coin (pair_of coin) q (st1, total_received)
            | STOP_LOSS \<Rightarrow> sell_position ev SL coin (pair_of coin) q (st1, total_received)
            | SAFE \<Rightarrow> (st1, total_received)
            | NO_DATA \<Rightarrow> (st1, total_received))))"

definition quick_tp_sl_check_and_sell :: "env \<Rightarrow> snapshot \<Rightarrow> state \<Rightarrow> state \<times> real" where
  "quick_tp_sl_check_and_sell ev snap st =
    (case get_balance snap of
       None \<Rightarrow> (st, 0)
     | Some bd \<Rightarrow>
         (let positions = get_current_positions (Some bd) in
          if positions = [] then (st, 0)
          else
            (case get_ticker snap of
               None \<Rightarrow> (st, 0)
             | Some td \<Rightarrow>
                 if Data td = [] then (st, 0)
                 else fold (quick_step ev (Data td)) positions (st, 0))))"

section \<open>The full trading cycle\<close>

subsection \<open>Step 1: TP/SL on the technicals' prices\<close>

text \<open>
  \<open>cycle_verdict\<close> is the chain of tests of one iteration of the loop of
  \<open>get_holdings_to_sell_for_tp_sl\<close>, \<open>tp_sl_step\<close> the iteration.
\<close>

definition cycle_verdict :: "portfolio \<Rightarrow> technicals \<Rightarrow> string \<Rightarrow> verdict" where
  "cycle_verdict pf tech coin =
    (case pf coin of
       None \<Rightarrow> NO_DATA
     | Some e \<Rightarrow>
         (case map_of tech (pair_of coin) of
            None \<Rightarrow> NO_DATA
          | Some d \<Rightarrow>
              (let current_price = price d;
                   price_ratio = (if buy_price e > 0 then current_price / buy_price e else 1)
               in if price_ratio \<ge> TP_THRESHOLD then TAKE_PROFIT
                  else if price_ratio \<le> SL_THRESHOLD then STOP_LOSS
                  else SAFE)))"

text \<open>
  The two dictionaries \<open>positions_to_sell\<close> and \<open>sell_reasons\<close> are filled in the order
  of the positions; their keys are the pairs of distinct coins.
\<close>

definition tp_sl_step ::
  "portfolio \<Rightarrow> technicals \<Rightarrow> string \<times> real \<Rightarrow>
   state \<times> (string \<times> real) list \<times> (string \<times> reason) list \<Rightarrow>
   state \<times> (string \<times> real) list \<times> (string \<times> reason) list" where
  "tp_sl_step pf tech pos acc =
    (case pos of (coin, q) \<Rightarrow>
      (case acc of (st, positions_to_sell, sell_reasons) \<Rightarrow>
        (let pair = pair_of coin;
             v = cycle_verdict pf tech coin;
             st1 = emit (Checked coin v) st
         in case v of
              TAKE_PROFIT \<Rightarrow> (st1, positions_to_sell @ [(pair, q)], sell_reasons @ [(pair, TP)])
            | STOP_LOSS \<Rightarrow> (st1, positions_to_sell @ [(pair, q)], sell_reasons @ [(pair, SL)])
            | SAFE \<Rightarrow> (st1, positions_to_sell, sell_reasons)
            | NO_DATA \<Rightarrow> (st1, positions_to_sell, sell_reasons))))"

definition get_holdings_to_sell_for_tp_sl ::
  "balance_data option \<Rightarrow> technicals \<Rightarrow> state \<Rightarrow>
   state \<times> (string \<times> real) list \<times> (string \<times> reason) list" where
  "get_holdings_to_sell_for_tp_sl bd tech st =
    fold (tp_sl_step (ledger st) tech) (get_current_positions bd) (st, [], [])"

definition execute_tp_sl_sells ::
  "env \<Rightarrow> (string \<times> real) list \<Rightarrow> (string \<times> reason) list \<Rightarrow> state \<Rightarrow> state \<times> real" where
  "execute_tp_sl_sells ev positions_to_sell sell_reasons st =
    (if positions_to_sell = [] then (st, 0)
     else
       fold (\<lambda>(pair, q).
               sell_position ev
                 (case map_of sell_reasons pair of None \<Rightarrow> UNKNOWN | Some r \<Rightarrow> r)
                 (coin_of pair) pair q)
            positions_to_sell (emit (Enter TP_SL_SELLS) st, 0))"

subsection \<open>Step 2: strong sell signals\<close>

definition rank_pairs_by_technicals :: "technicals \<Rightarrow> (string \<times> signal_data) list" where
  \<comment> \<open>\<open>sorted(..., key=score, reverse=True)\<close>: descending, equal scores keep their order\<close>
  "rank_pairs_by_technicals tech = sort_key (\<lambda>x. - score (snd x)) tech"

definition sell_step ::
  "env \<Rightarrow> technicals \<Rightarrow> string \<times> real \<Rightarrow> state \<times> real \<Rightarrow> state \<times> real" where
  "sell_step ev tech pos acc =
    (case pos of (coin, q) \<Rightarrow>
      (let pair = pair_of coin in
       case map_of tech pair of
         None \<Rightarrow> acc
       | Some d \<Rightarrow>
           if signal d \<noteq> ''SELL'' then acc
           else
             (let sell_count = sell d in
              if sell_count < STRONG_SELL_THRESHOLD then acc
              else sell_position ev STRONG_SELL coin pair q acc)))"

definition execute_sells ::
  "env \<Rightarrow> (string \<times> real) list \<Rightarrow> technicals \<Rightarrow> state \<Rightarrow> state \<times> real" where
  "execute_sells ev positions tech st =
    fold (sell_step ev tech) positions (emit (Enter SELLS) st, 0)"

subsection \<open>Step 3: weak sells funding strong buys\<close>

definition weak_sell_step ::
  "env \<Rightarrow> technicals \<Rightarrow> string \<times> real \<Rightarrow> state \<times> real \<Rightarrow> state \<times> real" where
  "weak_sell_step ev tech pos acc =
    (case pos of (coin, q) \<Rightarrow>
      (let pair = pair_of coin in
       case map_of tech pair of
         None \<Rightarrow> acc
       | Some d \<Rightarrow>
           (let sell_count = sell d in
            if sell_count < WEAK_SELL_THRESHOLD then acc
            else sell_position ev WEAK_SELL_REBALANCE coin pair q acc)))"

definition execute_weak_sell_rebalancing ::
  "env \<Rightarrow> (string \<times> real) list \<Rightarrow> technicals \<Rightarrow> state \<Rightarrow> state \<times> real" where
  "execute_weak_sell_rebalancing ev positions tech st =
    fold (weak_sell_step ev tech) positions (emit (Enter WEAK_SELL_REBALANCING) st, 0)"

definition buy_signals :: "(string \<times> signal_data) list \<Rightarrow> (string \<times> signal_data) list" where
  "buy_signals ranked_pairs =
    [(p, d) \<leftarrow> ranked_pairs. signal d = ''BUY'' \<and> buy d \<ge> STRONG_SELL_THRESHOLD]"

definition exponential_weights :: "nat \<Rightarrow> int list" where
  "exponential_weights num_buys = [2 ^ (num_buys - i - 1). i \<leftarrow> [0..<num_buys]]"

definition allocation :: "nat \<Rightarrow> nat \<Rightarrow> real \<Rightarrow> real" where
  \<comment> \<open>\<open>(exponential_weights[i] / total_weight) * cash_to_invest\<close>\<close>
  "allocation num_buys i cash_to_invest =
    (let total_weight = sum_list (exponential_weights num_buys)
     in (real_of_int (exponential_weights num_buys ! i) / real_of_int total_weight)
          * cash_to_invest)"

definition buy_step ::
  "env \<Rightarrow> nat \<Rightarrow> real \<Rightarrow> nat \<times> string \<times> signal_data \<Rightarrow> state \<Rightarrow> state" where
  "buy_step ev num_buys cash_to_invest cand st =
    (case cand of (i, pair, d) \<Rightarrow>
      (let alloc = allocation num_buys i cash_to_invest in
       if alloc < 10 then st
       else if price d \<le> 0 then st
       else
         (let ideal_quantity = alloc / price d in
          case PAIR_PRECISION ev pair of
            None \<Rightarrow> st
          | Some precision \<Rightarrow>
              (let adjusted_quantity = adjust_quantity precision ideal_quantity in
               if adjusted_quantity > 0 then
                 (let st1 = emit (Buying pair (i + 1) alloc adjusted_quantity) st;
                      ord = \<lparr>o_pair = pair, o_side = BUY, o_quantity = adjusted_quantity\<rparr>;
                      res = place_order ev (trace st1) ord;
                      st2 = emit (Placed STRONG_BUY ord res) st1
                  in case res of
                       None \<Rightarrow> st2
                     | Some od \<Rightarrow>
                         (let filled_qty = FilledQuantity od in
                          if filled_qty > 0
                          then st2\<lparr>ledger :=
                                 update_portfolio_on_buy (clock ev) pair filled_qty (price d)
                                   (ledger st2)\<rparr>
                          else st2))
               else st))))"

definition execute_buys ::
  "env \<Rightarrow> real \<Rightarrow> (string \<times> signal_data) list \<Rightarrow> (string \<times> real) list \<Rightarrow> technicals \<Rightarrow>
   state \<Rightarrow> state" where
  "execute_buys ev available_cash ranked_pairs positions tech st =
    (let st0 = emit (Enter BUYS) st;
         cands = buy_signals ranked_pairs
     in if cands = [] then st0
        else
          (case execute_weak_sell_rebalancing ev positions tech st0 of
             (st1, cash_from_weak_sells) \<Rightarrow>
               (let cash_to_invest = available_cash + cash_from_weak_sells - RESERVE_CASH in
                if cash_to_invest \<le> 10 then st1
                else fold (buy_step ev (length cands) cash_to_invest)
                       (enumerate 0 cands) st1)))"

subsection \<open>The cycle and the scheduler\<close>

definition trading_cycle :: "env \<Rightarrow> snapshot \<Rightarrow> state \<Rightarrow> state" where
  "trading_cycle ev snap st =
    (let st0 = emit (Enter FULL_CYCLE) st in
     case get_balance snap of
       None \<Rightarrow> st0
     | Some bd \<Rightarrow>
         (let available_cash =
                (case map_of (SpotWallet bd) ''USD'' of None \<Rightarrow> 0 | Some a \<Rightarrow> Free a);
              positions = get_current_positions (Some bd);
              tech = get_all_technicals snap
          in if tech = [] then st0
             else
               (case get_holdings_to_sell_for_tp_sl (Some bd) tech st0 of
                  (st1, positions_to_sell, sell_reasons) \<Rightarrow>
                    (case execute_tp_sl_sells ev positions_to_sell sell_reasons st1 of
                       (st2, cash_from_tp_sl) \<Rightarrow>
                         (let ranked_pairs = rank_pairs_by_technicals tech in
                          case execute_sells ev positions tech st2 of
                            (st3, cash_from_sells) \<Rightarrow>
                              execute_buys ev (available_cash + cash_from_tp_sl + cash_from_sells)
                                ranked_pairs positions tech st3)))))"

text \<open>
  The functions above return on every answer of the data model. The fetches catch request
  errors only: a response whose body is JSON but not an object (\<open>null\<close>, say) makes
  \<open>response_json.get\<close> raise in \<open>get_balance\<close>, and nothing below the loop of \<open>main\<close>
  handles that. Both calls fetch the balance before they do anything to the ledger: the
  full cycle right after its header, the quick check as its first statement. So what the
  collaborators answer to a call is either that the balance fetch raises, or a snapshot.
  A call gives \<open>Inl\<close> the state at which the exception escaped it, or \<open>Inr\<close> the state
  at which it returned.
\<close>

datatype answers = Balance_fetch_raises | Answers snapshot

definition trading_cycle_call :: "env \<Rightarrow> answers \<Rightarrow> state \<Rightarrow> state + state" where
  "trading_cycle_call ev ans st =
    (case ans of
       Balance_fetch_raises \<Rightarrow> Inl (emit (Enter FULL_CYCLE) st)
     | Answers snap \<Rightarrow> Inr (trading_cycle ev snap st))"

definition quick_check_call :: "env \<Rightarrow> answers \<Rightarrow> state \<Rightarrow> state + state" where
  "quick_check_call ev ans st =
    (case ans of
       Balance_fetch_raises \<Rightarrow> Inl st
     | Answers snap \<Rightarrow> Inr (fst (quick_tp_sl_check_and_sell ev snap st)))"

text \<open>
  One iteration of the loop of \<open>main\<close>, with its handler. When the timer has reached the
  interval, the full cycle is counted and called, and the timer is reset once the call has
  returned. Then the quick check is counted, announced and called, and the timer advances
  by the quick interval once that call has returned. An exception escaping either call
  ends the iteration in the handler, which logs it: what follows the call in the
  \<open>try\<close> block is skipped. (Stopping the bot from the keyboard is not modelled.)
\<close>

record sched =
  time_since_full_cycle :: int
  quick_check_count :: nat
  full_cycle_count :: nat

definition quick_part :: "env \<Rightarrow> answers \<Rightarrow> sched \<times> state \<Rightarrow> sched \<times> state" where
  "quick_part ev answers_quick cur =
    (case cur of (sc, st) \<Rightarrow>
      (let sc1 = sc\<lparr>quick_check_count := quick_check_count sc + 1\<rparr>;
           st1 = emit (Enter QUICK_CHECK) st
       in case quick_check_call ev answers_quick st1 of
            Inl st' \<Rightarrow> (sc1, emit Unhandled_error st')
          | Inr st' \<Rightarrow>
              (sc1\<lparr>time_since_full_cycle :=
                      time_since_full_cycle sc1 + QUICK_TP_SL_CHECK_INTERVAL\<rparr>,
               st')))"

definition tick :: "env \<Rightarrow> answers \<Rightarrow> answers \<Rightarrow> sched \<times> state \<Rightarrow> sched \<times> state" where
  "tick ev answers_full answers_quick cur =
    (case cur of (sc, st) \<Rightarrow>
      if time_since_full_cycle sc \<ge> FULL_TRADING_CYCLE_INTERVAL
      then
        (let sc1 = sc\<lparr>full_cycle_count := full_cycle_count sc + 1\<rparr>
         in case trading_cycle_call ev answers_full st of
              Inl st' \<Rightarrow> (sc1, emit Unhandled_error st')
            | Inr st' \<Rightarrow>
                quick_part ev answers_quick (sc1\<lparr>time_since_full_cycle := 0\<rparr>, st'))
      else quick_part ev answers_quick (sc, st))"

section \<open>Notions used by the properties\<close>

text \<open>
  \<open>adds_only P st st'\<close>: the log of \<open>st'\<close> is the log of \<open>st\<close> followed by lines that all
  satisfy \<open>P\<close>. \<open>sell_of rs coins\<close> holds of a sell order placed for one of the reasons
  \<open>rs\<close> on the pair of one of the \<open>coins\<close>; \<open>is_check coins\<close> of the outcome of a TP/SL
  check of one of the coins; \<open>is_buy\<close> of the announcement of a buy and of a buy order.
\<close>

definition adds_only :: "(event \<Rightarrow> bool) \<Rightarrow> state \<Rightarrow> state \<Rightarrow> bool" where
  "adds_only P st st' \<longleftrightarrow> (\<exists>evs. trace st' = trace st @ evs \<and> list_all P evs)"

definition sell_of :: "reason set \<Rightarrow> string set \<Rightarrow> event \<Rightarrow> bool" where
  "sell_of rs coins e \<longleftrightarrow>
    (\<exists>r ord res coin. e = Placed r ord res \<and> r \<in> rs \<and> coin \<in> coins \<and>
       o_pair ord = pair_of coin \<and> o_side ord = SELL)"

definition is_check :: "string set \<Rightarrow> event \<Rightarrow> bool" where
  "is_check coins e \<longleftrightarrow> (\<exists>coin v. e = Checked coin v \<and> coin \<in> coins)"

definition is_buy :: "event \<Rightarrow> bool" where
  "is_buy e \<longleftrightarrow>
    (\<exists>pair k a q. e = Buying pair k a q) \<or>
    (\<exists>ord res. e = Placed STRONG_BUY ord res \<and> o_side ord = BUY)"

text \<open>The lines logged between two states of one run.\<close>

definition logged :: "state \<Rightarrow> state \<Rightarrow> event list" where
  "logged st st' = drop (length (trace st)) (trace st')"

text \<open>The coins whose TP/SL check a piece of the log reports, in order.\<close>

fun checked_coins :: "event list \<Rightarrow> string list" where
  "checked_coins [] = []"
| "checked_coins (Checked c v # es) = c # checked_coins es"
| "checked_coins (e # es) = checked_coins es"

text \<open>The three-way comparison both TP/SL checks apply to the price ratio.\<close>

definition verdict_of_ratio :: "real \<Rightarrow> verdict" where
  "verdict_of_ratio r = (if r \<ge> TP_THRESHOLD then TAKE_PROFIT
                         else if r \<le> SL_THRESHOLD then STOP_LOSS else SAFE)"

text \<open>The lines of a TP/SL check: its outcome, or a sell order placed for TP or SL.\<close>

definition risk_line :: "event \<Rightarrow> bool" where
  "risk_line e \<longleftrightarrow>
    (\<exists>coin v. e = Checked coin v) \<or>
    (\<exists>ord res. (e = Placed TP ord res \<or> e = Placed SL ord res) \<and> o_side ord = SELL)"

section \<open>Example data\<close>

text \<open>
  A gateway that fills every order, a precision table with whole units of BTC, a ledger
  holding 1.5 BTC bought at 100, a wallet, and the answers of the collaborators to one
  full cycle (a strong sell on BTC, a strong buy on ETH) and to one quick check.
\<close>

definition ex_env :: env where
  "ex_env = \<lparr>PAIR_PRECISION = [''BTC/USD'' \<mapsto> 0],
             place_order = (\<lambda>h ord. Some \<lparr>UnitChange = 90, FilledQuantity = o_quantity ord\<rparr>),
             clock = ''2025-01-01T00:00:00''\<rparr>"

definition ex_ledger :: portfolio where
  "ex_ledger = [''BTC'' \<mapsto> \<lparr>buy_price = 100, quantity = 3 / 2, timestamp = None\<rparr>]"

definition ex_wallet :: "real \<Rightarrow> balance_data" where
  "ex_wallet btc = \<lparr>Success = True,
      SpotWallet = [(''USD'', \<lparr>Free = 100, Lock = 0\<rparr>), (''BTC'', \<lparr>Free = btc, Lock = 0\<rparr>)]\<rparr>"

definition ex_btc_sell :: signal_data where
  "ex_btc_sell = \<lparr>price = 90, sell = 14, neutral = 10, buy = 2, signal = ''SELL'', score = -12\<rparr>"

definition ex_eth_buy :: signal_data where
  "ex_eth_buy = \<lparr>price = 10, sell = 2, neutral = 9, buy = 15, signal = ''BUY'', score = 13\<rparr>"

definition ex_cycle :: snapshot where
  "ex_cycle =
    \<lparr>get_balance = Some (ex_wallet (3 / 2)),
     get_ticker = None,
     get_all_technicals = [(''BTC/USD'', ex_btc_sell), (''ETH/USD'', ex_eth_buy)]\<rparr>"

definition ex_quick :: "real \<Rightarrow> snapshot" where
  "ex_quick btc =
    \<lparr>get_balance = Some (ex_wallet btc),
     get_ticker = Some \<lparr>Data = [(''BTC/USD'', \<lparr>LastPrice = 107\<rparr>)]\<rparr>,
     get_all_technicals = []\<rparr>"

definition ex_state :: state where
  "ex_state = \<lparr>ledger = ex_ledger, trace = []\<rparr>"

text \<open>
  For the buy phase: precision rules for ETH and ADA but none for SOL, three strong-buy
  candidates in rank order, and a BTC signal without a usable price.
\<close>

definition ex_buy_env :: env where
  "ex_buy_env = ex_env\<lparr>PAIR_PRECISION := [''ETH/USD'' \<mapsto> 2, ''ADA/USD'' \<mapsto> 0]\<rparr>"

definition ex_sol_buy :: signal_data where
  "ex_sol_buy = \<lparr>price = 20, sell = 3, neutral = 9, buy = 14, signal = ''BUY'', score = 11\<rparr>"

definition ex_ada_buy :: signal_data where
  "ex_ada_buy = \<lparr>price = 3, sell = 4, neutral = 9, buy = 13, signal = ''BUY'', score = 9\<rparr>"

definition ex_ranked :: "(string \<times> signal_data) list" where
  "ex_ranked = [(''ETH/USD'', ex_eth_buy), (''SOL/USD'', ex_sol_buy), (''ADA/USD'', ex_ada_buy)]"

definition ex_btc_no_price :: signal_data where
  "ex_btc_no_price =
    \<lparr>price = 0, sell = 3, neutral = 20, buy = 3, signal = ''NEUTRAL'', score = 0\<rparr>"

section \<open>Properties\<close>

subsection \<open>What each phase adds to the log\<close>

lemma fst_in: "(c, q) \<in> set xs \<Longrightarrow> c \<in> fst ` set xs"
  by force

lemma adds_only_refl: "adds_only P st st"
  by (simp add: adds_only_def)

lemma adds_only_trans: "adds_only P a b \<Longrightarrow> adds_only P b c \<Longrightarrow> adds_only P a c"
  by (auto simp: adds_only_def)

lemma adds_only_mono: "adds_only P a b \<Longrightarrow> (\<And>e. P e \<Longrightarrow> Q e) \<Longrightarrow> adds_only Q a b"
  by (auto simp: adds_only_def list_all_iff)

lemma adds_only_emit: "P e \<Longrightarrow> adds_only P st (emit e st)"
  by (simp add: adds_only_def emit_def)

lemma adds_only_fold:
  assumes "\<And>x acc. x \<in> set xs \<Longrightarrow> adds_only P (g acc) (g (f x acc))"
  shows "adds_only P (g acc) (g (fold f xs acc))"
  using assms
proof (induction xs arbitrary: acc)
  case Nil
  show ?case by (simp add: adds_only_refl)
next
  case (Cons x xs)
  have "adds_only P (g acc) (g (f x acc))" using Cons.prems by simp
  moreover have "adds_only P (g (f x acc)) (g (fold f xs (f x acc)))"
    using Cons.prems by (intro Cons.IH) simp
  ultimately show ?case by (auto intro: adds_only_trans)
qed

lemma coin_of_pair_of: "CHR ''/'' \<notin> set coin \<Longrightarrow> coin_of (pair_of coin) = coin"
  by (induction coin) (auto simp: coin_of_def pair_of_def)

lemma sell_position_adds:
  "adds_only (\<lambda>e. \<exists>ord res. e = Placed why ord res \<and> o_pair ord = pair \<and> o_side ord = SELL)
     (fst acc) (fst (sell_position ev why coin pair q acc))"
  by (cases acc) (auto simp: adds_only_def sell_position_def emit_def Let_def split: option.splits)

lemma sell_position_sell_of:
  "why \<in> rs \<Longrightarrow> coin \<in> coins \<Longrightarrow>
   adds_only (sell_of rs coins) (fst acc) (fst (sell_position ev why c (pair_of coin) q acc))"
  by (rule adds_only_mono[OF sell_position_adds]) (auto simp: sell_of_def)

lemma quick_step_adds:
  "coin \<in> coins \<Longrightarrow>
   adds_only (\<lambda>e. is_check coins e \<or> sell_of {TP, SL} coins e)
     (fst acc) (fst (quick_step ev td (coin, q) acc))"
proof -
  assume c: "coin \<in> coins"
  obtain st t where acc: "acc = (st, t)" by (cases acc)
  let ?P = "\<lambda>e. is_check coins e \<or> sell_of {TP, SL} coins e"
  let ?v = "quick_verdict (ledger st) td coin"
  let ?st1 = "emit (Checked coin ?v) st"
  have 1: "adds_only ?P st ?st1"
    using c by (intro adds_only_emit) (simp add: is_check_def)
  have 2: "adds_only ?P ?st1 (fst (sell_position ev why coin (pair_of coin) q (?st1, t)))"
    if "why \<in> {TP, SL}" for why
    by (rule adds_only_mono[OF sell_position_sell_of[OF that c, where acc = "(?st1, t)", simplified]])
       simp
  show ?thesis
    using 1 2[of TP] 2[of SL]
    by (cases ?v) (auto simp: acc quick_step_def Let_def intro: adds_only_trans)
qed

lemma quick_adds:
  "adds_only (\<lambda>e. is_check (fst ` set (get_current_positions (get_balance snap))) e
                \<or> sell_of {TP, SL} (fst ` set (get_current_positions (get_balance snap))) e)
     st (fst (quick_tp_sl_check_and_sell ev snap st))"
proof -
  let ?pos = "get_current_positions (get_balance snap)"
  let ?P = "\<lambda>e. is_check (fst ` set ?pos) e \<or> sell_of {TP, SL} (fst ` set ?pos) e"
  have "adds_only ?P (fst (st, 0::real)) (fst (fold (quick_step ev td) ?pos (st, 0)))" for td
  proof (rule adds_only_fold[where g = fst])
    fix x acc assume x: "x \<in> set ?pos"
    obtain c q where "x = (c, q)" by (cases x)
    with x show "adds_only ?P (fst acc) (fst (quick_step ev td x acc))"
      by (simp add: quick_step_adds fst_in)
  qed
  then show ?thesis
    by (auto simp: quick_tp_sl_check_and_sell_def Let_def adds_only_refl split: option.splits)
qed

lemma fold_invariant:
  assumes "I acc" and "\<And>x a. x \<in> set xs \<Longrightarrow> I a \<Longrightarrow> I (f x a)"
  shows "I (fold f xs acc)"
  using assms by (induction xs arbitrary: acc) auto

lemma tp_sl_step_adds:
  "coin \<in> coins \<Longrightarrow>
   adds_only (is_check coins) (fst acc) (fst (tp_sl_step pf tech (coin, q) acc))"
  by (cases acc; cases "cycle_verdict pf tech coin")
     (auto simp: tp_sl_step_def Let_def is_check_def intro!: adds_only_emit)

lemma tp_sl_step_pairs:
  "coin \<in> coins \<Longrightarrow> fst ` set (fst (snd acc)) \<subseteq> pair_of ` coins \<Longrightarrow>
   fst ` set (fst (snd (tp_sl_step pf tech (coin, q) acc))) \<subseteq> pair_of ` coins"
  by (cases acc; cases "cycle_verdict pf tech coin") (auto simp: tp_sl_step_def Let_def)

lemma get_holdings_adds:
  "adds_only (is_check (fst ` set (get_current_positions bd)))
     st (fst (get_holdings_to_sell_for_tp_sl bd tech st))"
proof -
  let ?acc0 = "(st, [], []) :: state \<times> (string \<times> real) list \<times> (string \<times> reason) list"
  have "adds_only (is_check (fst ` set (get_current_positions bd)))
     (fst ?acc0) (fst (fold (tp_sl_step (ledger st) tech) (get_current_positions bd) ?acc0))"
  proof (rule adds_only_fold[where g = fst])
    fix x acc assume x: "x \<in> set (get_current_positions bd)"
    obtain c q where "x = (c, q)" by (cases x)
    with x show "adds_only (is_check (fst ` set (get_current_positions bd))) (fst acc)
                 (fst (tp_sl_step (ledger st) tech x acc))"
      by (simp add: tp_sl_step_adds fst_in)
  qed
  then show ?thesis by (simp add: get_holdings_to_sell_for_tp_sl_def)
qed

lemma get_holdings_pairs:
  "fst ` set (fst (snd (get_holdings_to_sell_for_tp_sl bd tech st)))
     \<subseteq> pair_of ` fst ` set (get_current_positions bd)"
  unfolding get_holdings_to_sell_for_tp_sl_def
proof (rule fold_invariant[where I = "\<lambda>a. fst ` set (fst (snd a)) \<subseteq> pair_of ` fst ` set (get_current_positions bd)"])
  fix x and a :: "state \<times> (string \<times> real) list \<times> (string \<times> reason) list"
  assume x: "x \<in> set (get_current_positions bd)"
    and a: "fst ` set (fst (snd a)) \<subseteq> pair_of ` fst ` set (get_current_positions bd)"
  obtain c q where "x = (c, q)" by (cases x)
  with x a show "fst ` set (fst (snd (tp_sl_step (ledger st) tech x a)))
               \<subseteq> pair_of ` fst ` set (get_current_positions bd)"
    by (simp add: tp_sl_step_pairs fst_in)
qed simp

lemma tp_sl_step_reasons:
  "snd ` set (snd (snd acc)) \<subseteq> {TP, SL} \<Longrightarrow>
   snd ` set (snd (snd (tp_sl_step pf tech (coin, q) acc))) \<subseteq> {TP, SL}"
  by (cases acc; cases "cycle_verdict pf tech coin") (auto simp: tp_sl_step_def Let_def)

lemma get_holdings_reasons:
  "snd ` set (snd (snd (get_holdings_to_sell_for_tp_sl bd tech st))) \<subseteq> {TP, SL}"
  unfolding get_holdings_to_sell_for_tp_sl_def
proof (rule fold_invariant[where I = "\<lambda>a. snd ` set (snd (snd a)) \<subseteq> {TP, SL}"])
  fix x :: "string \<times> real"
    and a :: "state \<times> (string \<times> real) list \<times> (string \<times> reason) list"
  assume a: "snd ` set (snd (snd a)) \<subseteq> {TP, SL}"
  obtain c q where "x = (c, q)" by (cases x)
  with a show "snd ` set (snd (snd (tp_sl_step (ledger st) tech x a))) \<subseteq> {TP, SL}"
    by (simp add: tp_sl_step_reasons)
qed simp

lemma execute_tp_sl_sells_adds:
  assumes pairs: "fst ` set positions_to_sell \<subseteq> pair_of ` coins"
    and reasons: "snd ` set sell_reasons \<subseteq> {TP, SL}"
  shows "adds_only (\<lambda>e. e = Enter TP_SL_SELLS \<or> sell_of {TP, SL, UNKNOWN} coins e)
           st (fst (execute_tp_sl_sells ev positions_to_sell sell_reasons st))"
proof (cases "positions_to_sell = []")
  case True
  then show ?thesis by (simp add: execute_tp_sl_sells_def adds_only_refl)
next
  case False
  let ?P = "\<lambda>e. e = Enter TP_SL_SELLS \<or> sell_of {TP, SL, UNKNOWN} coins e"
  let ?why = "\<lambda>pair. case map_of sell_reasons pair of None \<Rightarrow> UNKNOWN | Some r \<Rightarrow> r"
  let ?f = "\<lambda>(pair, q). sell_position ev (?why pair) (coin_of pair) pair q"
  let ?st0 = "emit (Enter TP_SL_SELLS) st"
  have why: "?why pair \<in> {TP, SL, UNKNOWN}" for pair
  proof (cases "map_of sell_reasons pair")
    case None
    then show ?thesis by simp
  next
    case (Some r)
    then have "(pair, r) \<in> set sell_reasons" by (rule map_of_SomeD)
    then have "r \<in> snd ` set sell_reasons" by force
    with reasons have "r \<in> {TP, SL}" by blast
    with Some show ?thesis by auto
  qed
  have step: "adds_only ?P (fst acc) (fst (?f x acc))" if "x \<in> set positions_to_sell" for x acc
  proof -
    obtain pair q where x: "x = (pair, q)" by (cases x)
    have "pair \<in> fst ` set positions_to_sell" using that x by (simp add: fst_in)
    with pairs have "pair \<in> pair_of ` coins" by blast
    then obtain coin where coin: "coin \<in> coins" "pair = pair_of coin" by blast
    have "adds_only (sell_of {TP, SL, UNKNOWN} coins) (fst acc)
            (fst (sell_position ev (?why pair) (coin_of pair) (pair_of coin) q acc))"
      using why coin(1) by (rule sell_position_sell_of)
    then have "adds_only (sell_of {TP, SL, UNKNOWN} coins) (fst acc) (fst (?f x acc))"
      by (simp add: x coin(2))
    then show ?thesis by (rule adds_only_mono) simp
  qed
  have "adds_only ?P (fst (?st0, 0::real)) (fst (fold ?f positions_to_sell (?st0, 0)))"
    by (rule adds_only_fold[where g = fst]) (rule step)
  moreover have "adds_only ?P st ?st0" by (simp add: adds_only_emit)
  ultimately have "adds_only ?P st (fst (fold ?f positions_to_sell (?st0, 0)))"
    by (auto intro: adds_only_trans)
  then show ?thesis
    using False by (simp add: execute_tp_sl_sells_def)
qed

lemma sell_step_adds:
  "coin \<in> coins \<Longrightarrow>
   adds_only (sell_of {STRONG_SELL} coins) (fst acc) (fst (sell_step ev tech (coin, q) acc))"
  by (auto simp: sell_step_def Let_def adds_only_refl sell_position_sell_of split: option.splits)

lemma execute_sells_adds:
  "adds_only (\<lambda>e. e = Enter SELLS \<or> sell_of {STRONG_SELL} (fst ` set positions) e)
     st (fst (execute_sells ev positions tech st))"
proof -
  let ?P = "\<lambda>e. e = Enter SELLS \<or> sell_of {STRONG_SELL} (fst ` set positions) e"
  let ?st0 = "emit (Enter SELLS) st"
  have "adds_only ?P (fst (?st0, 0::real)) (fst (fold (sell_step ev tech) positions (?st0, 0)))"
  proof (rule adds_only_fold[where g = fst])
    fix x acc assume x: "x \<in> set positions"
    obtain c q where "x = (c, q)" by (cases x)
    with x have "adds_only (sell_of {STRONG_SELL} (fst ` set positions)) (fst acc)
                 (fst (sell_step ev tech x acc))"
      by (simp add: sell_step_adds fst_in)
    then show "adds_only ?P (fst acc) (fst (sell_step ev tech x acc))"
      by (rule adds_only_mono) simp
  qed
  moreover have "adds_only ?P st ?st0" by (simp add: adds_only_emit)
  ultimately show ?thesis
    by (auto simp: execute_sells_def intro: adds_only_trans)
qed

lemma weak_sell_step_adds:
  "coin \<in> coins \<Longrightarrow>
   adds_only (sell_of {WEAK_SELL_REBALANCE} coins) (fst acc)
     (fst (weak_sell_step ev tech (coin, q) acc))"
  by (auto simp: weak_sell_step_def Let_def adds_only_refl sell_position_sell_of
           split: option.splits)

lemma execute_weak_sell_rebalancing_adds:
  "adds_only (\<lambda>e. e = Enter WEAK_SELL_REBALANCING
                \<or> sell_of {WEAK_SELL_REBALANCE} (fst ` set positions) e)
     st (fst (execute_weak_sell_rebalancing ev positions tech st))"
proof -
  let ?P = "\<lambda>e. e = Enter WEAK_SELL_REBALANCING
                \<or> sell_of {WEAK_SELL_REBALANCE} (fst ` set positions) e"
  let ?st0 = "emit (Enter WEAK_SELL_REBALANCING) st"
  have "adds_only ?P (fst (?st0, 0::real))
          (fst (fold (weak_sell_step ev tech) positions (?st0, 0)))"
  proof (rule adds_only_fold[where g = fst])
    fix x acc assume x: "x \<in> set positions"
    obtain c q where "x = (c, q)" by (cases x)
    with x have "adds_only (sell_of {WEAK_SELL_REBALANCE} (fst ` set positions)) (fst acc)
                 (fst (weak_sell_step ev tech x acc))"
      by (simp add: weak_sell_step_adds fst_in)
    then show "adds_only ?P (fst acc) (fst (weak_sell_step ev tech x acc))"
      by (rule adds_only_mono) simp
  qed
  moreover have "adds_only ?P st ?st0" by (simp add: adds_only_emit)
  ultimately show ?thesis
    by (auto simp: execute_weak_sell_rebalancing_def intro: adds_only_trans)
qed



lemma adds_only_logged:
  "adds_only P st st' \<Longrightarrow> trace st' = trace st @ logged st st' \<and> list_all P (logged st st')"
  by (auto simp: adds_only_def logged_def)

lemma adds_only_True: "adds_only P st st' \<Longrightarrow> adds_only (\<lambda>e. True) st st'"
  by (erule adds_only_mono) simp

lemma logged_trans:
  "adds_only P a b \<Longrightarrow> adds_only Q b c \<Longrightarrow> logged a c = logged a b @ logged b c"
  by (auto simp: adds_only_def logged_def)

lemma logged_emit: "logged st (emit e st) = [e]"
  by (simp add: logged_def emit_def)

lemma logged_refl: "logged st st = []"
  by (simp add: logged_def)

lemma logged_ledger: "logged st (st'\<lparr>ledger := l\<rparr>) = logged st st'"
  by (simp add: logged_def)

lemma buy_step_adds:
  "adds_only (\<lambda>e. (\<exists>q. e = Buying pair (i + 1) (allocation n i cash) q) \<or>
                  (\<exists>ord res. e = Placed STRONG_BUY ord res \<and> o_pair ord = pair \<and> o_side ord = BUY))
     st (buy_step ev n cash (i, pair, d) st)"
  by (auto simp: buy_step_def Let_def adds_only_def emit_def split: option.splits)

lemma buy_loop_adds:
  "adds_only (\<lambda>e. (\<exists>i q. i < length cands \<and>
                        e = Buying (fst (cands ! i)) (i + 1) (allocation n i cash) q) \<or>
                  (\<exists>ord res. e = Placed STRONG_BUY ord res \<and> o_side ord = BUY))
     st (fold (buy_step ev n cash) (enumerate 0 cands) st)"
proof (rule adds_only_fold[where g = "\<lambda>s. s"])
  fix x acc
  assume x: "x \<in> set (enumerate 0 cands)"
  obtain i pair d where [simp]: "x = (i, pair, d)" by (cases x)
  from x have i: "i < length cands" "cands ! i = (pair, d)"
    by (auto simp: in_set_enumerate_eq)
  show "adds_only (\<lambda>e. (\<exists>i q. i < length cands \<and>
                        e = Buying (fst (cands ! i)) (i + 1) (allocation n i cash) q) \<or>
                  (\<exists>ord res. e = Placed STRONG_BUY ord res \<and> o_side ord = BUY))
          acc (buy_step ev n cash x acc)"
    unfolding \<open>x = _\<close>
    by (rule adds_only_mono[OF buy_step_adds]) (use i in force)
qed

lemma buy_loop_is_buy:
  "adds_only is_buy st (fold (buy_step ev n cash) (enumerate 0 cands) st)"
  by (rule adds_only_mono[OF buy_loop_adds]) (auto simp: is_buy_def)

lemma execute_buys_adds:
  "adds_only (\<lambda>e. e = Enter BUYS \<or> e = Enter WEAK_SELL_REBALANCING
                \<or> sell_of {WEAK_SELL_REBALANCE} (fst ` set positions) e \<or> is_buy e)
     st (execute_buys ev cash ranked positions tech st)"
proof -
  let ?P = "\<lambda>e. e = Enter BUYS \<or> e = Enter WEAK_SELL_REBALANCING
                \<or> sell_of {WEAK_SELL_REBALANCE} (fst ` set positions) e \<or> is_buy e"
  let ?st0 = "emit (Enter BUYS) st"
  obtain st1 c where w: "execute_weak_sell_rebalancing ev positions tech ?st0 = (st1, c)"
    by (cases "execute_weak_sell_rebalancing ev positions tech ?st0")
  have 0: "adds_only ?P st ?st0" by (simp add: adds_only_emit)
  have "adds_only ?P ?st0 (fst (execute_weak_sell_rebalancing ev positions tech ?st0))"
    by (rule adds_only_mono[OF execute_weak_sell_rebalancing_adds]) auto
  with w have 1: "adds_only ?P ?st0 st1" by simp
  have 2: "adds_only ?P st1 (fold (buy_step ev n x) (enumerate 0 cands) st1)" for n x cands
    by (rule adds_only_mono[OF buy_loop_is_buy]) simp
  show ?thesis
    using 0 1 2 by (auto simp: execute_buys_def Let_def w intro: adds_only_trans)
qed

lemma get_holdings_cases:
  obtains st1 ps rs where "get_holdings_to_sell_for_tp_sl bd tech st = (st1, ps, rs)"
    and "adds_only (is_check (fst ` set (get_current_positions bd))) st st1"
    and "fst ` set ps \<subseteq> pair_of ` fst ` set (get_current_positions bd)"
    and "snd ` set rs \<subseteq> {TP, SL}"
proof -
  obtain st1 ps rs where eq: "get_holdings_to_sell_for_tp_sl bd tech st = (st1, ps, rs)"
    by (cases "get_holdings_to_sell_for_tp_sl bd tech st")
  show ?thesis
    using get_holdings_adds[of bd st tech] get_holdings_pairs[of bd tech st]
      get_holdings_reasons[of bd tech st]
    by (intro that[OF eq]) (simp_all add: eq)
qed

text \<open>The cycle up to the strong sells, then the buys.\<close>

lemma trading_cycle_split:
  assumes bal: "get_balance snap = Some bd" and tech: "get_all_technicals snap \<noteq> []"
  obtains st2 c where
    "adds_only (\<lambda>e. e = Enter FULL_CYCLE \<or> e = Enter TP_SL_SELLS
                   \<or> is_check (fst ` set (get_current_positions (Some bd))) e
                   \<or> sell_of {TP, SL, UNKNOWN} (fst ` set (get_current_positions (Some bd))) e)
       st st2"
    and "trading_cycle ev snap st =
           execute_buys ev
             (c + snd (execute_sells ev (get_current_positions (Some bd)) (get_all_technicals snap) st2))
             (rank_pairs_by_technicals (get_all_technicals snap))
             (get_current_positions (Some bd)) (get_all_technicals snap)
             (fst (execute_sells ev (get_current_positions (Some bd)) (get_all_technicals snap) st2))"
proof -
  let ?coins = "fst ` set (get_current_positions (Some bd))"
  let ?P = "\<lambda>e. e = Enter FULL_CYCLE \<or> e = Enter TP_SL_SELLS
                   \<or> is_check ?coins e \<or> sell_of {TP, SL, UNKNOWN} ?coins e"
  let ?st0 = "emit (Enter FULL_CYCLE) st"
  obtain st1 ps rs where h: "get_holdings_to_sell_for_tp_sl (Some bd) (get_all_technicals snap) ?st0 = (st1, ps, rs)"
    and h1: "adds_only (is_check ?coins) ?st0 st1"
    and h2: "fst ` set ps \<subseteq> pair_of ` ?coins"
    and h3: "snd ` set rs \<subseteq> {TP, SL}"
    by (rule get_holdings_cases)
  obtain st2 c2 where t: "execute_tp_sl_sells ev ps rs st1 = (st2, c2)"
    by (cases "execute_tp_sl_sells ev ps rs st1")
  have "adds_only (\<lambda>e. e = Enter TP_SL_SELLS \<or> sell_of {TP, SL, UNKNOWN} ?coins e)
          st1 (fst (execute_tp_sl_sells ev ps rs st1))"
    using h2 h3 by (rule execute_tp_sl_sells_adds)
  then have a2: "adds_only ?P st1 st2"
    unfolding t by (auto elim: adds_only_mono)
  have a0: "adds_only ?P st ?st0" by (simp add: adds_only_emit)
  have a1: "adds_only ?P ?st0 st1" using h1 by (auto elim: adds_only_mono)
  have a: "adds_only ?P st st2"
    using a0 a1 a2 by (blast intro: adds_only_trans)
  let ?avail = "case map_of (SpotWallet bd) ''USD'' of None \<Rightarrow> 0 | Some a \<Rightarrow> Free a"
  have "trading_cycle ev snap st =
           execute_buys ev
             ((?avail + c2) + snd (execute_sells ev (get_current_positions (Some bd)) (get_all_technicals snap) st2))
             (rank_pairs_by_technicals (get_all_technicals snap))
             (get_current_positions (Some bd)) (get_all_technicals snap)
             (fst (execute_sells ev (get_current_positions (Some bd)) (get_all_technicals snap) st2))"
    using bal tech by (simp add: trading_cycle_def Let_def h t split: prod.splits)
  with a show ?thesis by (rule that)
qed

lemma logged_mem_trans1:
  "adds_only P a b \<Longrightarrow> adds_only Q b c \<Longrightarrow> e \<in> set (logged a b) \<Longrightarrow> e \<in> set (logged a c)"
  by (simp add: logged_trans)

lemma logged_mem_trans2:
  "adds_only P a b \<Longrightarrow> adds_only Q b c \<Longrightarrow> e \<in> set (logged b c) \<Longrightarrow> e \<in> set (logged a c)"
  by (simp add: logged_trans)

lemma adds_only_not_logged:
  "adds_only P st st' \<Longrightarrow> \<not> P e \<Longrightarrow> e \<notin> set (logged st st')"
  by (auto dest!: adds_only_logged simp: list_all_iff)

lemma weak_loop_adds:
  "adds_only (sell_of {WEAK_SELL_REBALANCE} (fst ` set positions))
     (fst acc) (fst (fold (weak_sell_step ev tech) positions acc))"
proof (rule adds_only_fold[where g = fst])
  fix x acc assume x: "x \<in> set positions"
  obtain c q where "x = (c, q)" by (cases x)
  with x show "adds_only (sell_of {WEAK_SELL_REBALANCE} (fst ` set positions)) (fst acc)
                 (fst (weak_sell_step ev tech x acc))"
    by (simp add: weak_sell_step_adds fst_in)
qed

lemma execute_weak_sell_rebalancing_enters:
  "Enter WEAK_SELL_REBALANCING
     \<in> set (logged st (fst (execute_weak_sell_rebalancing ev positions tech st)))"
proof -
  let ?st0 = "emit (Enter WEAK_SELL_REBALANCING) st"
  have "adds_only (\<lambda>e. True) st ?st0" by (simp add: adds_only_emit)
  moreover have "adds_only (sell_of {WEAK_SELL_REBALANCE} (fst ` set positions)) ?st0
      (fst (execute_weak_sell_rebalancing ev positions tech st))"
    using weak_loop_adds[of positions "(?st0, 0)" ev tech]
    by (simp add: execute_weak_sell_rebalancing_def)
  moreover have "Enter WEAK_SELL_REBALANCING \<in> set (logged st ?st0)"
    by (simp add: logged_emit)
  ultimately show ?thesis by (rule logged_mem_trans1)
qed

lemma execute_buys_funding:
  assumes "buy_signals ranked \<noteq> []"
  shows "Enter WEAK_SELL_REBALANCING \<in> set (logged st (execute_buys ev cash ranked positions tech st))"
proof -
  let ?st0 = "emit (Enter BUYS) st"
  let ?w = "execute_weak_sell_rebalancing ev positions tech ?st0"
  let ?fin = "execute_buys ev cash ranked positions tech st"
  have 0: "adds_only (\<lambda>e. True) st ?st0" by (simp add: adds_only_emit)
  have 1: "adds_only (\<lambda>e. True) ?st0 (fst ?w)"
    by (rule adds_only_True[OF execute_weak_sell_rebalancing_adds])
  have "adds_only (\<lambda>e. True) s (fold (buy_step ev n x) (enumerate 0 cands) s)" for s n x cands
    by (rule adds_only_True[OF buy_loop_is_buy])
  then have 2: "adds_only (\<lambda>e. True) (fst ?w) ?fin"
    using assms
    by (auto simp: execute_buys_def Let_def adds_only_refl split: prod.splits)
  have "Enter WEAK_SELL_REBALANCING \<in> set (logged ?st0 (fst ?w))"
    by (rule execute_weak_sell_rebalancing_enters)
  with 0 1 have "Enter WEAK_SELL_REBALANCING \<in> set (logged st (fst ?w))"
    by (rule logged_mem_trans2)
  with adds_only_trans[OF 0 1] 2 show ?thesis
    by (rule logged_mem_trans1)
qed

lemma execute_buys_no_candidates:
  "buy_signals ranked = [] \<Longrightarrow>
   execute_buys ev cash ranked positions tech st = emit (Enter BUYS) st"
  by (simp add: execute_buys_def Let_def)

lemma trading_cycle_early:
  "get_balance snap = None \<or> get_all_technicals snap = [] \<Longrightarrow>
   trading_cycle ev snap st = emit (Enter FULL_CYCLE) st"
  by (auto simp: trading_cycle_def Let_def split: option.splits)

lemma rank_pairs_Nil: "rank_pairs_by_technicals [] = []"
  by (simp add: rank_pairs_by_technicals_def)

lemma buy_signals_Nil: "buy_signals [] = []"
  by (simp add: buy_signals_def)

lemma trading_cycle_adds:
  "adds_only
     (\<lambda>e. (\<exists>ph. e = Enter ph \<and> ph \<noteq> QUICK_CHECK)
         \<or> is_check (fst ` set (get_current_positions (get_balance snap))) e
         \<or> sell_of {TP, SL, UNKNOWN, STRONG_SELL, WEAK_SELL_REBALANCE}
              (fst ` set (get_current_positions (get_balance snap))) e
         \<or> is_buy e)
     st (trading_cycle ev snap st)"
proof (cases "get_balance snap = None \<or> get_all_technicals snap = []")
  case True
  then show ?thesis by (simp add: trading_cycle_early adds_only_emit)
next
  case False
  then obtain bd where bal: "get_balance snap = Some bd"
    and tech: "get_all_technicals snap \<noteq> []" by auto
  let ?pos = "get_current_positions (Some bd)"
  let ?coins = "fst ` set ?pos"
  let ?P = "\<lambda>e. (\<exists>ph. e = Enter ph \<and> ph \<noteq> QUICK_CHECK) \<or> is_check ?coins e
         \<or> sell_of {TP, SL, UNKNOWN, STRONG_SELL, WEAK_SELL_REBALANCE} ?coins e \<or> is_buy e"
  from bal tech obtain st2 c where
    a: "adds_only (\<lambda>e. e = Enter FULL_CYCLE \<or> e = Enter TP_SL_SELLS
                   \<or> is_check ?coins e \<or> sell_of {TP, SL, UNKNOWN} ?coins e) st st2"
    and eq: "trading_cycle ev snap st =
           execute_buys ev (c + snd (execute_sells ev ?pos (get_all_technicals snap) st2))
             (rank_pairs_by_technicals (get_all_technicals snap)) ?pos (get_all_technicals snap)
             (fst (execute_sells ev ?pos (get_all_technicals snap) st2))"
    by (rule trading_cycle_split)
  let ?st3 = "fst (execute_sells ev ?pos (get_all_technicals snap) st2)"
  have 1: "adds_only ?P st st2"
    by (rule adds_only_mono[OF a]) (auto simp: sell_of_def)
  have 2: "adds_only ?P st2 ?st3"
    by (rule adds_only_mono[OF execute_sells_adds]) (auto simp: sell_of_def)
  have 3: "adds_only ?P ?st3 (trading_cycle ev snap st)"
    unfolding eq by (rule adds_only_mono[OF execute_buys_adds]) (auto simp: sell_of_def)
  from 1 2 3 show ?thesis
    unfolding bal by (blast intro: adds_only_trans)
qed

lemma trading_cycle_no_funding:
  assumes "buy_signals (rank_pairs_by_technicals (get_all_technicals snap)) = []"
  shows "adds_only (\<lambda>e. e \<noteq> Enter WEAK_SELL_REBALANCING
                      \<and> (\<forall>ord res. e \<noteq> Placed WEAK_SELL_REBALANCE ord res))
           st (trading_cycle ev snap st)"
proof (cases "get_balance snap = None \<or> get_all_technicals snap = []")
  case True
  then show ?thesis by (simp add: trading_cycle_early adds_only_emit)
next
  case False
  then obtain bd where bal: "get_balance snap = Some bd"
    and tech: "get_all_technicals snap \<noteq> []" by auto
  let ?pos = "get_current_positions (Some bd)"
  let ?coins = "fst ` set ?pos"
  let ?P = "\<lambda>e. e \<noteq> Enter WEAK_SELL_REBALANCING
                      \<and> (\<forall>ord res. e \<noteq> Placed WEAK_SELL_REBALANCE ord res)"
  from bal tech obtain st2 c where
    a: "adds_only (\<lambda>e. e = Enter FULL_CYCLE \<or> e = Enter TP_SL_SELLS
                   \<or> is_check ?coins e \<or> sell_of {TP, SL, UNKNOWN} ?coins e) st st2"
    and eq: "trading_cycle ev snap st =
           execute_buys ev (c + snd (execute_sells ev ?pos (get_all_technicals snap) st2))
             (rank_pairs_by_technicals (get_all_technicals snap)) ?pos (get_all_technicals snap)
             (fst (execute_sells ev ?pos (get_all_technicals snap) st2))"
    by (rule trading_cycle_split)
  let ?st3 = "fst (execute_sells ev ?pos (get_all_technicals snap) st2)"
  have 1: "adds_only ?P st st2"
    by (rule adds_only_mono[OF a]) (auto simp: sell_of_def is_check_def)
  have 2: "adds_only ?P st2 ?st3"
    by (rule adds_only_mono[OF execute_sells_adds]) (auto simp: sell_of_def)
  have 3: "adds_only ?P ?st3 (trading_cycle ev snap st)"
    unfolding eq by (simp add: execute_buys_no_candidates assms adds_only_emit)
  from 1 2 3 show ?thesis
    by (blast intro: adds_only_trans)
qed

lemma trading_cycle_funding:
  assumes "get_balance snap \<noteq> None"
    and "buy_signals (rank_pairs_by_technicals (get_all_technicals snap)) \<noteq> []"
  shows "Enter WEAK_SELL_REBALANCING \<in> set (logged st (trading_cycle ev snap st))"
proof -
  from assms obtain bd where bal: "get_balance snap = Some bd" by auto
  from assms(2) have tech: "get_all_technicals snap \<noteq> []"
    by (auto simp: rank_pairs_Nil buy_signals_Nil)
  let ?pos = "get_current_positions (Some bd)"
  let ?coins = "fst ` set ?pos"
  from bal tech obtain st2 c where
    a: "adds_only (\<lambda>e. e = Enter FULL_CYCLE \<or> e = Enter TP_SL_SELLS
                   \<or> is_check ?coins e \<or> sell_of {TP, SL, UNKNOWN} ?coins e) st st2"
    and eq: "trading_cycle ev snap st =
           execute_buys ev (c + snd (execute_sells ev ?pos (get_all_technicals snap) st2))
             (rank_pairs_by_technicals (get_all_technicals snap)) ?pos (get_all_technicals snap)
             (fst (execute_sells ev ?pos (get_all_technicals snap) st2))"
    by (rule trading_cycle_split)
  let ?st3 = "fst (execute_sells ev ?pos (get_all_technicals snap) st2)"
  have 12: "adds_only (\<lambda>e. True) st ?st3"
    using adds_only_True[OF a] adds_only_True[OF execute_sells_adds]
    by (rule adds_only_trans)
  have 3: "adds_only (\<lambda>e. True) ?st3 (trading_cycle ev snap st)"
    unfolding eq by (rule adds_only_True[OF execute_buys_adds])
  have "Enter WEAK_SELL_REBALANCING \<in> set (logged ?st3 (trading_cycle ev snap st))"
    unfolding eq using assms(2) by (rule execute_buys_funding)
  with 12 3 show ?thesis by (rule logged_mem_trans2)
qed

lemma trading_cycle_starts:
  "\<exists>evs. logged st (trading_cycle ev snap st) = Enter FULL_CYCLE # evs"
proof (cases "get_balance snap = None \<or> get_all_technicals snap = []")
  case True
  then show ?thesis by (simp add: trading_cycle_early logged_emit)
next
  case False
  then obtain bd where bal: "get_balance snap = Some bd"
    and tech: "get_all_technicals snap \<noteq> []" by auto
  let ?st0 = "emit (Enter FULL_CYCLE) st"
  have 0: "adds_only (\<lambda>e. True) st ?st0" by (simp add: adds_only_emit)
  have h: "adds_only (\<lambda>e. True) ?st0 (fst (get_holdings_to_sell_for_tp_sl (Some bd) (get_all_technicals snap) ?st0))"
    by (rule adds_only_True[OF get_holdings_adds])
  obtain st1 ps rs where g: "get_holdings_to_sell_for_tp_sl (Some bd) (get_all_technicals snap) ?st0 = (st1, ps, rs)"
    and g2: "fst ` set ps \<subseteq> pair_of ` fst ` set (get_current_positions (Some bd))"
    and g3: "snd ` set rs \<subseteq> {TP, SL}"
    by (rule get_holdings_cases)
  have 1: "adds_only (\<lambda>e. True) ?st0 st1" using h by (simp add: g)
  have 2: "adds_only (\<lambda>e. True) st1 (fst (execute_tp_sl_sells ev ps rs st1))"
    by (rule adds_only_True[OF execute_tp_sl_sells_adds[OF g2 g3]])
  let ?st2 = "fst (execute_tp_sl_sells ev ps rs st1)"
  let ?es = "execute_sells ev (get_current_positions (Some bd)) (get_all_technicals snap) ?st2"
  have 3: "adds_only (\<lambda>e. True) ?st2 (fst ?es)"
    by (rule adds_only_True[OF execute_sells_adds])
  have fin: "trading_cycle ev snap st =
      execute_buys ev ((case map_of (SpotWallet bd) ''USD'' of None \<Rightarrow> 0 | Some a \<Rightarrow> Free a)
          + snd (execute_tp_sl_sells ev ps rs st1) + snd ?es)
        (rank_pairs_by_technicals (get_all_technicals snap))
        (get_current_positions (Some bd)) (get_all_technicals snap) (fst ?es)"
    using bal tech by (simp add: trading_cycle_def Let_def g split: prod.splits)
  have 4: "adds_only (\<lambda>e. True) (fst ?es) (trading_cycle ev snap st)"
    unfolding fin by (rule adds_only_True[OF execute_buys_adds])
  have rest: "adds_only (\<lambda>e. True) ?st0 (trading_cycle ev snap st)"
    using 1 2 3 4 by (blast intro: adds_only_trans)
  have "logged st (trading_cycle ev snap st) = logged st ?st0 @ logged ?st0 (trading_cycle ev snap st)"
    using 0 rest by (rule logged_trans)
  then show ?thesis by (simp add: logged_emit)
qed

lemma tick_state:
  "snd (tick ev (Answers snap_full) (Answers snap_quick) (sc, st)) =
     fst (quick_tp_sl_check_and_sell ev snap_quick
            (emit (Enter QUICK_CHECK)
               (if time_since_full_cycle sc \<ge> FULL_TRADING_CYCLE_INTERVAL
                then trading_cycle ev snap_full st else st)))"
  by (simp add: tick_def quick_part_def trading_cycle_call_def quick_check_call_def Let_def)

lemma positions_of_wallet_iff:
  "(coin, q) \<in> set [(c, Free a + Lock a). (c, a) \<leftarrow> xs, c \<noteq> ''USD'' \<and> Free a + Lock a > t]
   \<longleftrightarrow> (\<exists>a. (coin, a) \<in> set xs \<and> q = Free a + Lock a \<and> coin \<noteq> ''USD'' \<and> q > t)"
  by (induction xs) (auto split: if_splits)

lemma get_current_positions_iff:
  "(coin, q) \<in> set (get_current_positions bd) \<longleftrightarrow>
    (\<exists>b a. bd = Some b \<and> Success b \<and> (coin, a) \<in> set (SpotWallet b) \<and>
       q = Free a + Lock a \<and> coin \<noteq> ''USD'' \<and> q > 1 / 10 ^ 8)"
proof (cases bd)
  case None
  then show ?thesis by (simp add: get_current_positions_def)
next
  case (Some b)
  show ?thesis
    unfolding get_current_positions_def Some option.case
    by (cases "Success b") (simp_all only: positions_of_wallet_iff if_True if_False,
        auto)
qed

lemma positions_of_filtered:
  "[(coin, Free a + Lock a). (coin, a) \<leftarrow> [(c, a) \<leftarrow> xs. Free a + Lock a > t],
       coin \<noteq> ''USD'' \<and> Free a + Lock a > t]
   = [(coin, Free a + Lock a). (coin, a) \<leftarrow> xs, coin \<noteq> ''USD'' \<and> Free a + Lock a > t]"
  by (induction xs) auto

lemma get_current_positions_dust:
  "get_current_positions
     (Some (b\<lparr>SpotWallet := [(c, a) \<leftarrow> SpotWallet b. Free a + Lock a > 1 / 10 ^ 8]\<rparr>))
   = get_current_positions (Some b)"
proof -
  have sel: "Success (b\<lparr>SpotWallet := w\<rparr>) = Success b" "SpotWallet (b\<lparr>SpotWallet := w\<rparr>) = w"
    for w by simp_all
  show ?thesis
    unfolding get_current_positions_def option.case sel positions_of_filtered ..
qed

lemma sell_position_places:
  assumes "PAIR_PRECISION ev pair = Some p" and "adjust_quantity p q > 0"
  shows "\<exists>res. logged (fst acc) (fst (sell_position ev why coin pair q acc)) =
           [Placed why \<lparr>o_pair = pair, o_side = SELL, o_quantity = adjust_quantity p q\<rparr> res]"
  using assms
  by (cases acc) (auto simp: sell_position_def Let_def logged_def emit_def split: option.splits)

lemma fold_logged_contains:
  assumes step: "\<And>y acc. adds_only (\<lambda>e. True) (g acc) (g (f y acc))"
    and x: "x \<in> set xs"
    and hit: "\<And>acc. \<exists>e \<in> set (logged (g acc) (g (f x acc))). Q e"
  shows "\<exists>e \<in> set (logged (g acc) (g (fold f xs acc))). Q e"
  using x
proof (induction xs arbitrary: acc)
  case Nil
  then show ?case by simp
next
  case (Cons y ys)
  have 1: "adds_only (\<lambda>e. True) (g acc) (g (f y acc))" by (rule step)
  have 2: "adds_only (\<lambda>e. True) (g (f y acc)) (g (fold f ys (f y acc)))"
    by (rule adds_only_fold) (rule step)
  have eq: "logged (g acc) (g (fold f (y # ys) acc)) =
          logged (g acc) (g (f y acc)) @ logged (g (f y acc)) (g (fold f ys (f y acc)))"
    using logged_trans[OF 1 2] by simp
  show ?case
  proof (cases "x = y")
    case True
    with hit[of acc] show ?thesis unfolding eq by auto
  next
    case False
    with Cons.prems have "x \<in> set ys" by simp
    from Cons.IH[OF this, of "f y acc"] show ?thesis unfolding eq by auto
  qed
qed

lemma sell_step_any: "adds_only (\<lambda>e. True) (fst acc) (fst (sell_step ev tech y acc))"
proof (cases y)
  case (Pair c q)
  show ?thesis unfolding Pair
    by (rule adds_only_True[OF sell_step_adds[where coins = UNIV]]) simp
qed

lemma weak_sell_step_any: "adds_only (\<lambda>e. True) (fst acc) (fst (weak_sell_step ev tech y acc))"
proof (cases y)
  case (Pair c q)
  show ?thesis unfolding Pair
    by (rule adds_only_True[OF weak_sell_step_adds[where coins = UNIV]]) simp
qed

lemma execute_sells_places:
  assumes "(coin, q) \<in> set positions" and "map_of tech (pair_of coin) = Some d"
    and "signal d = ''SELL''" and "sell d \<ge> STRONG_SELL_THRESHOLD"
    and "PAIR_PRECISION ev (pair_of coin) = Some p" and "adjust_quantity p q > 0"
  shows "\<exists>res. Placed STRONG_SELL
                 \<lparr>o_pair = pair_of coin, o_side = SELL, o_quantity = adjust_quantity p q\<rparr> res
           \<in> set (logged st (fst (execute_sells ev positions tech st)))"
proof -
  let ?Q = "\<lambda>e. \<exists>res. e = Placed STRONG_SELL
                 \<lparr>o_pair = pair_of coin, o_side = SELL, o_quantity = adjust_quantity p q\<rparr> res"
  let ?st0 = "emit (Enter SELLS) st"
  have hit: "\<exists>e \<in> set (logged (fst acc) (fst (sell_step ev tech (coin, q) acc))). ?Q e" for acc
    using sell_position_places[OF assms(5,6), of acc STRONG_SELL coin] assms(2,3,4)
    by (auto simp: sell_step_def Let_def)
  have "\<exists>e \<in> set (logged (fst (?st0, 0::real))
                     (fst (fold (sell_step ev tech) positions (?st0, 0)))). ?Q e"
    using sell_step_any assms(1) hit by (rule fold_logged_contains[where g = fst])
  then obtain e where e: "e \<in> set (logged ?st0 (fst (execute_sells ev positions tech st)))" "?Q e"
    by (auto simp: execute_sells_def)
  have 0: "adds_only (\<lambda>e. True) st ?st0" by (simp add: adds_only_emit)
  have 1: "adds_only (\<lambda>e. True) ?st0 (fst (execute_sells ev positions tech st))"
    unfolding execute_sells_def
    using adds_only_fold[where g = fst and f = "sell_step ev tech" and acc = "(?st0, 0)", OF sell_step_any]
    by simp
  from 0 1 e(1) have "e \<in> set (logged st (fst (execute_sells ev positions tech st)))"
    by (rule logged_mem_trans2)
  with e(2) show ?thesis by auto
qed

lemma execute_weak_sell_rebalancing_places:
  assumes "(coin, q) \<in> set positions" and "map_of tech (pair_of coin) = Some d"
    and "sell d \<ge> WEAK_SELL_THRESHOLD"
    and "PAIR_PRECISION ev (pair_of coin) = Some p" and "adjust_quantity p q > 0"
  shows "\<exists>res. Placed WEAK_SELL_REBALANCE
                 \<lparr>o_pair = pair_of coin, o_side = SELL, o_quantity = adjust_quantity p q\<rparr> res
           \<in> set (logged st (fst (execute_weak_sell_rebalancing ev positions tech st)))"
proof -
  let ?Q = "\<lambda>e. \<exists>res. e = Placed WEAK_SELL_REBALANCE
                 \<lparr>o_pair = pair_of coin, o_side = SELL, o_quantity = adjust_quantity p q\<rparr> res"
  let ?st0 = "emit (Enter WEAK_SELL_REBALANCING) st"
  let ?fin = "fst (execute_weak_sell_rebalancing ev positions tech st)"
  have hit: "\<exists>e \<in> set (logged (fst acc) (fst (weak_sell_step ev tech (coin, q) acc))). ?Q e" for acc
    using sell_position_places[OF assms(4,5), of acc WEAK_SELL_REBALANCE coin] assms(2,3)
    by (auto simp: weak_sell_step_def Let_def)
  have "\<exists>e \<in> set (logged (fst (?st0, 0::real))
                     (fst (fold (weak_sell_step ev tech) positions (?st0, 0)))). ?Q e"
    using weak_sell_step_any assms(1) hit by (rule fold_logged_contains[where g = fst])
  then obtain e where e: "e \<in> set (logged ?st0 ?fin)" "?Q e"
    by (auto simp: execute_weak_sell_rebalancing_def)
  have 0: "adds_only (\<lambda>e. True) st ?st0" by (simp add: adds_only_emit)
  have 1: "adds_only (\<lambda>e. True) ?st0 ?fin"
    unfolding execute_weak_sell_rebalancing_def
    using adds_only_fold[where g = fst and f = "weak_sell_step ev tech" and acc = "(?st0, 0)", OF weak_sell_step_any]
    by simp
  from 0 1 e(1) have "e \<in> set (logged st ?fin)"
    by (rule logged_mem_trans2)
  with e(2) show ?thesis by auto
qed

lemma checked_coins_append: "checked_coins (xs @ ys) = checked_coins xs @ checked_coins ys"
  by (induction xs rule: checked_coins.induct) auto

lemma checked_coins_none:
  "list_all (\<lambda>e. \<forall>c v. e \<noteq> Checked c v) evs \<Longrightarrow> checked_coins evs = []"
  by (induction evs rule: checked_coins.induct) auto

lemma sell_position_checked:
  "checked_coins (logged (fst acc) (fst (sell_position ev why coin pair q acc))) = []"
proof -
  have "adds_only (\<lambda>e. \<forall>c v. e \<noteq> Checked c v) (fst acc) (fst (sell_position ev why coin pair q acc))"
    by (rule adds_only_mono[OF sell_position_adds]) auto
  then show ?thesis by (auto dest!: adds_only_logged intro: checked_coins_none)
qed

lemma quick_step_any: "adds_only (\<lambda>e. True) (fst acc) (fst (quick_step ev td y acc))"
proof (cases y)
  case (Pair c q)
  show ?thesis unfolding Pair
    by (rule adds_only_True[OF quick_step_adds[where coins = UNIV]]) simp
qed

lemma quick_step_checked:
  "checked_coins (logged (fst acc) (fst (quick_step ev td (coin, q) acc))) = [coin]"
proof -
  obtain st t where acc: "acc = (st, t)" by (cases acc)
  have sp: "checked_coins (logged st (fst (sell_position ev why coin (pair_of coin) q
              (emit (Checked coin v) st, t)))) = [coin]"
    for why v
  proof -
    let ?st1 = "emit (Checked coin v) st"
    have 0: "adds_only (\<lambda>e. True) st ?st1" by (simp add: adds_only_emit)
    have "adds_only (\<lambda>e. True) ?st1 (fst (sell_position ev why coin (pair_of coin) q (?st1, t)))"
      using adds_only_True[OF sell_position_adds[where acc = "(?st1, t)"]] by simp
    from logged_trans[OF 0 this] sell_position_checked[where acc = "(?st1, t)"]
    show ?thesis by (simp add: checked_coins_append logged_emit)
  qed
  show ?thesis
    by (cases "quick_verdict (ledger st) td coin")
       (simp_all add: acc quick_step_def Let_def sp logged_emit)
qed

lemma quick_loop_checked:
  "checked_coins (logged (fst acc) (fst (fold (quick_step ev td) pos acc))) = map fst pos"
proof (induction pos arbitrary: acc)
  case Nil
  show ?case by (simp add: logged_refl)
next
  case (Cons x xs)
  obtain c q where x: "x = (c, q)" by (cases x)
  have 1: "adds_only (\<lambda>e. True) (fst acc) (fst (quick_step ev td x acc))"
    by (rule quick_step_any)
  have 2: "adds_only (\<lambda>e. True) (fst (quick_step ev td x acc))
             (fst (fold (quick_step ev td) xs (quick_step ev td x acc)))"
    by (rule adds_only_fold[where g = fst]) (rule quick_step_any)
  show ?case
    using logged_trans[OF 1 2] Cons.IH[of "quick_step ev td x acc"] quick_step_checked[where acc = acc]
    by (simp add: checked_coins_append x)
qed

lemma quick_checked:
  assumes "get_balance snap = Some bd" and "get_ticker snap = Some td" and "Data td \<noteq> []"
  shows "checked_coins (logged st (fst (quick_tp_sl_check_and_sell ev snap st)))
           = map fst (get_current_positions (Some bd))"
  using assms quick_loop_checked[where acc = "(st, 0)"]
  by (simp add: quick_tp_sl_check_and_sell_def Let_def logged_refl)

text \<open>No phase removes a ledger entry.\<close>

lemma dom_zero_quantity: "dom (zero_quantity coin pf) = dom pf"
  by (auto simp: zero_quantity_def split: option.splits)

lemma dom_update_portfolio_on_buy: "dom pf \<subseteq> dom (update_portfolio_on_buy ts pair q pr pf)"
  by (auto simp: update_portfolio_on_buy_def Let_def)

lemma ledger_emit: "ledger (emit e st) = ledger st"
  by (simp add: emit_def)

lemma sell_position_dom:
  "D \<subseteq> dom (ledger (fst acc)) \<Longrightarrow> D \<subseteq> dom (ledger (fst (sell_position ev why coin pair q acc)))"
  by (cases acc)
     (auto simp: sell_position_def Let_def ledger_emit dom_zero_quantity split: option.splits)

lemma quick_step_dom:
  "D \<subseteq> dom (ledger (fst acc)) \<Longrightarrow> D \<subseteq> dom (ledger (fst (quick_step ev td y acc)))"
proof -
  assume D: "D \<subseteq> dom (ledger (fst acc))"
  obtain c q where y: "y = (c, q)" by (cases y)
  obtain st t where acc: "acc = (st, t)" by (cases acc)
  let ?st1 = "emit (Checked c (quick_verdict (ledger st) td c)) st"
  have "D \<subseteq> dom (ledger (fst (?st1, t)))" using D by (simp add: acc ledger_emit)
  then have "D \<subseteq> dom (ledger (fst (sell_position ev why c (pair_of c) q (?st1, t))))" for why
    by (rule sell_position_dom)
  then show ?thesis
    using D by (cases "quick_verdict (ledger st) td c")
      (simp_all add: quick_step_def y acc Let_def ledger_emit)
qed

lemma quick_dom:
  "D \<subseteq> dom (ledger st) \<Longrightarrow> D \<subseteq> dom (ledger (fst (quick_tp_sl_check_and_sell ev snap st)))"
proof -
  assume D: "D \<subseteq> dom (ledger st)"
  have "D \<subseteq> dom (ledger (fst (fold (quick_step ev td) pos (st, 0::real))))" for td pos
    by (rule fold_invariant[where I = "\<lambda>a. D \<subseteq> dom (ledger (fst a))"])
       (simp_all add: D quick_step_dom)
  then show ?thesis
    using D by (simp add: quick_tp_sl_check_and_sell_def Let_def split: option.splits)
qed

lemma tp_sl_step_ledger: "ledger (fst (tp_sl_step pf tech y acc)) = ledger (fst acc)"
  by (cases y; cases acc; cases "cycle_verdict pf tech (fst y)")
     (auto simp: tp_sl_step_def Let_def ledger_emit)

lemma get_holdings_ledger:
  "ledger (fst (get_holdings_to_sell_for_tp_sl bd tech st)) = ledger st"
  unfolding get_holdings_to_sell_for_tp_sl_def
  by (rule fold_invariant[where I = "\<lambda>a. ledger (fst a) = ledger st"])
     (simp_all add: tp_sl_step_ledger)

lemma execute_tp_sl_sells_dom:
  assumes "D \<subseteq> dom (ledger st)"
  shows "D \<subseteq> dom (ledger (fst (execute_tp_sl_sells ev ps rs st)))"
proof (cases "ps = []")
  case True
  with assms show ?thesis by (simp add: execute_tp_sl_sells_def)
next
  case False
  have "D \<subseteq> dom (ledger (fst (fold (\<lambda>(pair, q).
               sell_position ev
                 (case map_of rs pair of None \<Rightarrow> UNKNOWN | Some r \<Rightarrow> r)
                 (coin_of pair) pair q) ps (emit (Enter TP_SL_SELLS) st, 0::real))))"
    by (rule fold_invariant[where I = "\<lambda>a. D \<subseteq> dom (ledger (fst a))"])
       (simp_all add: assms ledger_emit sell_position_dom split: prod.splits)
  with False show ?thesis by (simp add: execute_tp_sl_sells_def)
qed

lemma sell_step_dom:
  "D \<subseteq> dom (ledger (fst acc)) \<Longrightarrow> D \<subseteq> dom (ledger (fst (sell_step ev tech y acc)))"
  by (cases y) (simp add: sell_step_def Let_def sell_position_dom split: option.splits)

lemma execute_sells_dom:
  "D \<subseteq> dom (ledger st) \<Longrightarrow> D \<subseteq> dom (ledger (fst (execute_sells ev pos tech st)))"
  unfolding execute_sells_def
  by (rule fold_invariant[where I = "\<lambda>a. D \<subseteq> dom (ledger (fst a))"])
     (simp_all add: ledger_emit sell_step_dom)

lemma weak_sell_step_dom:
  "D \<subseteq> dom (ledger (fst acc)) \<Longrightarrow> D \<subseteq> dom (ledger (fst (weak_sell_step ev tech y acc)))"
  by (cases y) (simp add: weak_sell_step_def Let_def sell_position_dom split: option.splits)

lemma execute_weak_sell_rebalancing_dom:
  "D \<subseteq> dom (ledger st) \<Longrightarrow>
   D \<subseteq> dom (ledger (fst (execute_weak_sell_rebalancing ev pos tech st)))"
  unfolding execute_weak_sell_rebalancing_def
  by (rule fold_invariant[where I = "\<lambda>a. D \<subseteq> dom (ledger (fst a))"])
     (simp_all add: ledger_emit weak_sell_step_dom)

lemma buy_step_dom:
  "D \<subseteq> dom (ledger st) \<Longrightarrow> D \<subseteq> dom (ledger (buy_step ev n cash y st))"
proof -
  assume D: "D \<subseteq> dom (ledger st)"
  have "D \<subseteq> dom (update_portfolio_on_buy ts pair q pr (ledger st))" for ts pair q pr
    using D dom_update_portfolio_on_buy by (rule subset_trans)
  with D show ?thesis
    by (cases y) (simp add: buy_step_def Let_def ledger_emit split: option.splits)
qed

lemma execute_buys_dom:
  assumes "D \<subseteq> dom (ledger st)"
  shows "D \<subseteq> dom (ledger (execute_buys ev cash ranked pos tech st))"
proof -
  let ?w = "execute_weak_sell_rebalancing ev pos tech (emit (Enter BUYS) st)"
  have w: "D \<subseteq> dom (ledger (fst ?w))"
    by (rule execute_weak_sell_rebalancing_dom) (simp add: assms ledger_emit)
  have "D \<subseteq> dom (ledger (fold (buy_step ev n x) cs (fst ?w)))" for n x cs
    by (rule fold_invariant[where I = "\<lambda>a. D \<subseteq> dom (ledger a)"])
       (simp_all add: w buy_step_dom)
  with w assms show ?thesis
    by (simp add: execute_buys_def Let_def ledger_emit case_prod_beta)
qed

lemma trading_cycle_dom:
  assumes "D \<subseteq> dom (ledger st)"
  shows "D \<subseteq> dom (ledger (trading_cycle ev snap st))"
proof (cases "get_balance snap = None \<or> get_all_technicals snap = []")
  case True
  with assms show ?thesis by (simp add: trading_cycle_early ledger_emit)
next
  case False
  then obtain bd where bal: "get_balance snap = Some bd"
    and tech: "get_all_technicals snap \<noteq> []" by auto
  let ?st0 = "emit (Enter FULL_CYCLE) st"
  let ?h = "get_holdings_to_sell_for_tp_sl (Some bd) (get_all_technicals snap) ?st0"
  let ?t = "execute_tp_sl_sells ev (fst (snd ?h)) (snd (snd ?h)) (fst ?h)"
  let ?s = "execute_sells ev (get_current_positions (Some bd)) (get_all_technicals snap) (fst ?t)"
  have "D \<subseteq> dom (ledger (fst ?h))" using assms by (simp add: get_holdings_ledger ledger_emit)
  then have "D \<subseteq> dom (ledger (fst ?t))" by (rule execute_tp_sl_sells_dom)
  then have "D \<subseteq> dom (ledger (fst ?s))" by (rule execute_sells_dom)
  then have "D \<subseteq> dom (ledger (execute_buys ev x r p t (fst ?s)))" for x r p t
    by (rule execute_buys_dom)
  then show ?thesis
    using bal tech by (simp add: trading_cycle_def Let_def case_prod_beta)
qed

lemma quick_part_dom:
  "D \<subseteq> dom (ledger st) \<Longrightarrow> D \<subseteq> dom (ledger (snd (quick_part ev answers_quick (sc, st))))"
  by (cases answers_quick)
     (simp_all add: quick_part_def quick_check_call_def Let_def ledger_emit quick_dom)

lemma tick_dom:
  "dom (ledger st) \<subseteq> dom (ledger (snd (tick ev answers_full answers_quick (sc, st))))"
  by (cases answers_full)
     (simp_all add: tick_def trading_cycle_call_def Let_def ledger_emit quick_part_dom
        trading_cycle_dom)

lemma sell_position_success:
  assumes "PAIR_PRECISION ev pair = Some p" and "adjust_quantity p q > 0"
    and "place_order ev (trace st)
           \<lparr>o_pair = pair, o_side = SELL, o_quantity = adjust_quantity p q\<rparr> = Some od"
  shows "ledger (fst (sell_position ev why coin pair q (st, t))) = zero_quantity coin (ledger st)"
  using assms by (simp add: sell_position_def Let_def ledger_emit)

text \<open>The allocation arithmetic.\<close>

lemma sum_list_exponential_weights:
  "sum_list (exponential_weights n) = (\<Sum>j<n. 2 ^ (n - j - 1))"
  by (simp add: exponential_weights_def interv_sum_list_conv_sum_set_nat atLeast0LessThan)

lemma nth_exponential_weights: "i < n \<Longrightarrow> exponential_weights n ! i = 2 ^ (n - i - 1)"
  by (simp add: exponential_weights_def)

lemma allocation_formula:
  "i < n \<Longrightarrow> allocation n i cash = cash * 2 ^ (n - i - 1) / (\<Sum>j<n. 2 ^ (n - j - 1))"
  by (simp add: allocation_def Let_def sum_list_exponential_weights nth_exponential_weights)

lemma allocation_sum:
  assumes "n > 0"
  shows "(\<Sum>i<n. allocation n i cash) = cash"
proof -
  let ?S = "(\<Sum>j<n. (2::real) ^ (n - j - 1))"
  have pos: "?S > 0" using assms by (intro sum_pos) auto
  have "(\<Sum>i<n. allocation n i cash) = (\<Sum>i<n. cash * 2 ^ (n - i - 1) / ?S)"
    by (intro sum.cong refl) (simp add: allocation_formula)
  also have "\<dots> = cash * ?S / ?S"
    by (simp add: sum_divide_distrib[symmetric] sum_distrib_left[symmetric])
  also have "\<dots> = cash" using pos by simp
  finally show ?thesis .
qed

lemma execute_buys_allocations:
  "adds_only
     (\<lambda>e. \<forall>pair k a q. e = Buying pair k a q \<longrightarrow>
        (\<exists>i < length (buy_signals ranked). k = i + 1 \<and> pair = fst (buy_signals ranked ! i) \<and>
           a = allocation (length (buy_signals ranked)) i
                 (cash + snd (execute_weak_sell_rebalancing ev pos tech (emit (Enter BUYS) st))
                    - RESERVE_CASH)))
     st (execute_buys ev cash ranked pos tech st)"
proof -
  let ?cands = "buy_signals ranked"
  let ?st0 = "emit (Enter BUYS) st"
  let ?w = "execute_weak_sell_rebalancing ev pos tech ?st0"
  let ?c = "cash + snd ?w - RESERVE_CASH"
  let ?P = "\<lambda>e. \<forall>pair k a q. e = Buying pair k a q \<longrightarrow>
        (\<exists>i < length ?cands. k = i + 1 \<and> pair = fst (?cands ! i) \<and>
           a = allocation (length ?cands) i ?c)"
  have 0: "adds_only ?P st ?st0" by (simp add: adds_only_emit)
  have 1: "adds_only ?P ?st0 (fst ?w)"
    by (rule adds_only_mono[OF execute_weak_sell_rebalancing_adds]) (auto simp: sell_of_def)
  have 2: "adds_only ?P (fst ?w)
             (fold (buy_step ev (length ?cands) ?c) (enumerate 0 ?cands) (fst ?w))"
    by (rule adds_only_mono[OF buy_loop_adds]) auto
  from 0 1 2 show ?thesis
    by (auto simp: execute_buys_def Let_def case_prod_beta intro: adds_only_trans)
qed




lemma verdict_of_ratio_neq: "verdict_of_ratio r \<noteq> NO_DATA"
  by (simp add: verdict_of_ratio_def)

text \<open>Unfolding the examples and the loops on them.\<close>

lemmas ex_defs = ex_env_def ex_ledger_def ex_wallet_def ex_cycle_def ex_quick_def ex_state_def
  ex_btc_sell_def ex_eth_buy_def ex_buy_env_def ex_sol_buy_def ex_ada_buy_def ex_ranked_def
  ex_btc_no_price_def

lemmas run_defs = trading_cycle_def Let_def emit_def get_current_positions_def
  get_holdings_to_sell_for_tp_sl_def tp_sl_step_def cycle_verdict_def pair_of_def
  TP_THRESHOLD_def SL_THRESHOLD_def execute_tp_sl_sells_def sell_position_def
  adjust_quantity_def coin_of_def zero_quantity_def execute_sells_def sell_step_def
  STRONG_SELL_THRESHOLD_def execute_buys_def buy_signals_def rank_pairs_by_technicals_def
  execute_weak_sell_rebalancing_def weak_sell_step_def WEAK_SELL_THRESHOLD_def RESERVE_CASH_def
  quick_tp_sl_check_and_sell_def quick_step_def quick_verdict_def buy_step_def allocation_def
  exponential_weights_def enumerate_eq_zip update_portfolio_on_buy_def

lemma quick_risk_lines:
  "adds_only risk_line st (fst (quick_tp_sl_check_and_sell ev snap st))"
  by (rule adds_only_mono[OF quick_adds]) (auto simp: is_check_def sell_of_def risk_line_def)

lemma quick_part_adds:
  "adds_only (\<lambda>e. risk_line e \<or> e = Unhandled_error) (emit (Enter QUICK_CHECK) st)
     (snd (quick_part ev answers_quick (sc, st)))"
proof (cases answers_quick)
  case Balance_fetch_raises
  then show ?thesis
    by (simp add: quick_part_def quick_check_call_def Let_def adds_only_emit)
next
  case (Answers snap)
  have "adds_only (\<lambda>e. risk_line e \<or> e = Unhandled_error) (emit (Enter QUICK_CHECK) st)
          (fst (quick_tp_sl_check_and_sell ev snap (emit (Enter QUICK_CHECK) st)))"
    by (rule adds_only_mono[OF quick_risk_lines]) simp
  with Answers show ?thesis
    by (simp add: quick_part_def quick_check_call_def Let_def)
qed

lemma quick_part_logged:
  assumes "adds_only P st0 st"
  shows "\<exists>qs. logged st0 (snd (quick_part ev answers_quick (sc, st)))
                 = logged st0 st @ Enter QUICK_CHECK # qs
              \<and> list_all (\<lambda>e. risk_line e \<or> e = Unhandled_error) qs"
proof -
  let ?st1 = "emit (Enter QUICK_CHECK) st"
  let ?fin = "snd (quick_part ev answers_quick (sc, st))"
  have b: "adds_only (\<lambda>e. True) st ?st1" by (simp add: adds_only_emit)
  have a: "adds_only (\<lambda>e. True) st0 st" by (rule adds_only_True[OF assms])
  note c = quick_part_adds[of st ev answers_quick sc]
  have "logged st0 ?fin = logged st0 ?st1 @ logged ?st1 ?fin"
    using adds_only_trans[OF a b] c by (rule logged_trans)
  also have "logged st0 ?st1 = logged st0 st @ [Enter QUICK_CHECK]"
    using logged_trans[OF a b] by (simp add: logged_emit)
  finally have "logged st0 ?fin = logged st0 st @ Enter QUICK_CHECK # logged ?st1 ?fin"
    by simp
  moreover have "list_all (\<lambda>e. risk_line e \<or> e = Unhandled_error) (logged ?st1 ?fin)"
    using adds_only_logged[OF c] by simp
  ultimately show ?thesis by blast
qed

lemma tick_no_trigger:
  "\<not> time_since_full_cycle sc \<ge> FULL_TRADING_CYCLE_INTERVAL \<Longrightarrow>
   tick ev answers_full answers_quick (sc, st) = quick_part ev answers_quick (sc, st)"
  by (simp add: tick_def)

lemma tick_cycle_returns:
  "time_since_full_cycle sc \<ge> FULL_TRADING_CYCLE_INTERVAL \<Longrightarrow>
   tick ev (Answers snap_full) answers_quick (sc, st) =
     quick_part ev answers_quick
       (sc\<lparr>full_cycle_count := full_cycle_count sc + 1, time_since_full_cycle := 0\<rparr>,
        trading_cycle ev snap_full st)"
  by (simp add: tick_def trading_cycle_call_def Let_def)

lemma tick_cycle_raises:
  "time_since_full_cycle sc \<ge> FULL_TRADING_CYCLE_INTERVAL \<Longrightarrow>
   tick ev Balance_fetch_raises answers_quick (sc, st) =
     (sc\<lparr>full_cycle_count := full_cycle_count sc + 1\<rparr>,
      emit Unhandled_error (emit (Enter FULL_CYCLE) st))"
  by (simp add: tick_def trading_cycle_call_def Let_def)

lemma logged_two_emits: "logged st (emit b (emit a st)) = [a, b]"
  by (simp add: logged_def emit_def)

lemma quick_step_logged:
  "logged st (fst (quick_step ev td (coin, q) (st, t)))
     = [Checked coin (quick_verdict (ledger st) td coin)]
   \<or> (\<exists>p res. (quick_verdict (ledger st) td coin = TAKE_PROFIT
                   \<or> quick_verdict (ledger st) td coin = STOP_LOSS)
        \<and> PAIR_PRECISION ev (pair_of coin) = Some p \<and> adjust_quantity p q > 0
        \<and> logged st (fst (quick_step ev td (coin, q) (st, t)))
            = [Checked coin (quick_verdict (ledger st) td coin),
               Placed (if quick_verdict (ledger st) td coin = TAKE_PROFIT then TP else SL)
                 \<lparr>o_pair = pair_of coin, o_side = SELL, o_quantity = adjust_quantity p q\<rparr> res])"
  by (cases "quick_verdict (ledger st) td coin")
     (auto simp: quick_step_def sell_position_def Let_def logged_def emit_def
           split: option.splits)

lemma buy_step_any: "adds_only (\<lambda>e. True) st (buy_step ev n c y st)"
proof -
  obtain i pair d where y: "y = (i, pair, d)" by (cases y)
  show ?thesis unfolding y by (rule adds_only_True[OF buy_step_adds])
qed

lemma buy_step_places:
  assumes "allocation n i c \<ge> 10" and "price d > 0" and "PAIR_PRECISION ev pair = Some p"
    and "adjust_quantity p (allocation n i c / price d) > 0"
  shows "\<exists>res. logged st (buy_step ev n c (i, pair, d) st) =
           [Buying pair (i + 1) (allocation n i c) (adjust_quantity p (allocation n i c / price d)),
            Placed STRONG_BUY
              \<lparr>o_pair = pair, o_side = BUY,
                 o_quantity = adjust_quantity p (allocation n i c / price d)\<rparr> res]"
  using assms
  by (auto simp: buy_step_def Let_def logged_def emit_def split: option.splits)

lemma buy_step_skips:
  assumes "allocation n i c < 10 \<or> price d \<le> 0 \<or> PAIR_PRECISION ev pair = None
           \<or> (\<exists>p. PAIR_PRECISION ev pair = Some p
                  \<and> adjust_quantity p (allocation n i c / price d) \<le> 0)"
  shows "buy_step ev n c (i, pair, d) st = st"
  using assms by (auto simp: buy_step_def Let_def)

lemma buy_loop_places:
  assumes "i < length cands" and "cands ! i = (pair, d)"
    and "allocation n i c \<ge> 10" and "price d > 0" and "PAIR_PRECISION ev pair = Some p"
    and "adjust_quantity p (allocation n i c / price d) > 0"
  shows "Buying pair (i + 1) (allocation n i c) (adjust_quantity p (allocation n i c / price d))
           \<in> set (logged st (fold (buy_step ev n c) (enumerate 0 cands) st))
       \<and> (\<exists>res. Placed STRONG_BUY
              \<lparr>o_pair = pair, o_side = BUY,
                 o_quantity = adjust_quantity p (allocation n i c / price d)\<rparr> res
           \<in> set (logged st (fold (buy_step ev n c) (enumerate 0 cands) st)))"
proof -
  let ?b = "Buying pair (i + 1) (allocation n i c) (adjust_quantity p (allocation n i c / price d))"
  let ?ord = "\<lparr>o_pair = pair, o_side = BUY,
                 o_quantity = adjust_quantity p (allocation n i c / price d)\<rparr>"
  have mem: "(i, pair, d) \<in> set (enumerate 0 cands)"
    using assms(1,2) by (simp add: in_set_enumerate_eq)
  have hit1: "\<exists>e \<in> set (logged s (buy_step ev n c (i, pair, d) s)). e = ?b" for s
    using buy_step_places[OF assms(3-6), of s] by auto
  have hit2: "\<exists>e \<in> set (logged s (buy_step ev n c (i, pair, d) s)).
                \<exists>res. e = Placed STRONG_BUY ?ord res" for s
    using buy_step_places[OF assms(3-6), of s] by auto
  have 1: "\<exists>e \<in> set (logged st (fold (buy_step ev n c) (enumerate 0 cands) st)). e = ?b"
    by (rule fold_logged_contains[where g = "\<lambda>s. s" and f = "buy_step ev n c"
          and x = "(i, pair, d)" and Q = "\<lambda>e. e = ?b"])
       (rule buy_step_any, rule mem, rule hit1)
  have 2: "\<exists>e \<in> set (logged st (fold (buy_step ev n c) (enumerate 0 cands) st)).
             \<exists>res. e = Placed STRONG_BUY ?ord res"
    by (rule fold_logged_contains[where g = "\<lambda>s. s" and f = "buy_step ev n c"
          and x = "(i, pair, d)" and Q = "\<lambda>e. \<exists>res. e = Placed STRONG_BUY ?ord res"])
       (rule buy_step_any, rule mem, rule hit2)
  from 1 2 show ?thesis by auto
qed

lemma execute_buys_places:
  assumes "i < length (buy_signals ranked)" and "buy_signals ranked ! i = (pair, d)"
    and c: "c = cash + snd (execute_weak_sell_rebalancing ev pos tech (emit (Enter BUYS) st))
                  - RESERVE_CASH"
    and "c > 10"
    and "allocation (length (buy_signals ranked)) i c \<ge> 10" and "price d > 0"
    and "PAIR_PRECISION ev pair = Some p"
    and "adjust_quantity p (allocation (length (buy_signals ranked)) i c / price d) > 0"
  shows "Buying pair (i + 1) (allocation (length (buy_signals ranked)) i c)
             (adjust_quantity p (allocation (length (buy_signals ranked)) i c / price d))
           \<in> set (logged st (execute_buys ev cash ranked pos tech st))
       \<and> (\<exists>res. Placed STRONG_BUY
              \<lparr>o_pair = pair, o_side = BUY,
                 o_quantity =
                   adjust_quantity p (allocation (length (buy_signals ranked)) i c / price d)\<rparr> res
           \<in> set (logged st (execute_buys ev cash ranked pos tech st)))"
proof -
  let ?cands = "buy_signals ranked"
  let ?st0 = "emit (Enter BUYS) st"
  let ?w = "execute_weak_sell_rebalancing ev pos tech ?st0"
  let ?fin = "fold (buy_step ev (length ?cands) c) (enumerate 0 ?cands) (fst ?w)"
  from assms(1) have ne: "?cands \<noteq> []" by auto
  have fin: "execute_buys ev cash ranked pos tech st = ?fin"
    using ne assms(4) by (simp add: execute_buys_def Let_def case_prod_beta c)
  have 0: "adds_only (\<lambda>e. True) st ?st0" by (simp add: adds_only_emit)
  have 1: "adds_only (\<lambda>e. True) ?st0 (fst ?w)"
    by (rule adds_only_True[OF execute_weak_sell_rebalancing_adds])
  have 2: "adds_only (\<lambda>e. True) (fst ?w) ?fin"
    by (rule adds_only_True[OF buy_loop_is_buy])
  have up: "e \<in> set (logged (fst ?w) ?fin) \<Longrightarrow> e \<in> set (logged st ?fin)" for e
    using adds_only_trans[OF 0 1] 2 by (rule logged_mem_trans2)
  from buy_loop_places[OF assms(1,2,5-8), of "fst ?w"] up show ?thesis
    unfolding fin by blast
qed

subsection \<open>Weighted-average cost on a buy fill\<close>

text \<open>
  Claim C2. For an existing ledger entry with cost basis \<open>old_price\<close> and quantity
  \<open>old_qty\<close>, a buy fill \<open>(fill_price, fill_qty)\<close> with \<open>old_qty + fill_qty > 0\<close> sets
  the cost basis to \<open>(old_price * old_qty + fill_price * fill_qty) / (old_qty + fill_qty)\<close>
  and the quantity to \<open>old_qty + fill_qty\<close>. In particular an entry \<open>(cost = 100, qty = 0)\<close>
  merged with a fill \<open>(price = 50, qty = 2)\<close> ends at \<open>cost = 50, qty = 2\<close>: the stale cost
  basis of a zeroed position is not inherited.
\<close>

theorem update_portfolio_on_buy_weighted_average:
  "(pf (coin_of pair) = Some e \<and> quantity e + fill_qty > 0 \<longrightarrow>
      (\<exists>e'. update_portfolio_on_buy ts pair fill_qty fill_price pf (coin_of pair) = Some e' \<and>
         buy_price e' = (buy_price e * quantity e + fill_price * fill_qty) / (quantity e + fill_qty) \<and>
         quantity e' = quantity e + fill_qty))
   \<and> (\<exists>e'. update_portfolio_on_buy ts ''BTC/USD'' 2 50
          [''BTC'' \<mapsto> \<lparr>buy_price = 100, quantity = 0, timestamp = t\<rparr>] ''BTC'' = Some e' \<and>
          buy_price e' = 50 \<and> quantity e' = 2)"
  by (auto simp: update_portfolio_on_buy_def Let_def coin_of_def)

theorem update_portfolio_on_buy_weighted_average_witness:
  "\<exists>e'. update_portfolio_on_buy ''t1'' ''ETH/USD'' 1 200
      [''ETH'' \<mapsto> \<lparr>buy_price = 100, quantity = 3, timestamp = None\<rparr>] ''ETH'' = Some e' \<and>
      buy_price e' = 125 \<and> quantity e' = 4"
  using update_portfolio_on_buy_weighted_average
    [of "[''ETH'' \<mapsto> \<lparr>buy_price = 100, quantity = 3, timestamp = None\<rparr>]" "''ETH/USD''"
        "\<lparr>buy_price = 100, quantity = 3, timestamp = None\<rparr>" 1 "''t1''" 200]
  by (simp add: coin_of_def)

subsection \<open>TP/SL classification\<close>



subsection \<open>Strong-buy candidates\<close>

text \<open>
  Claim C8. A ranked instrument is a strong-buy candidate of the buy phase exactly when its
  signal is BUY and its buy-vote count is at least 13; the 13 is
  \<open>STRONG_SELL_THRESHOLD\<close>, the constant the strong-sell phase compares the sell-vote
  count with.
\<close>

theorem strong_buy_selection:
  "((p, d) \<in> set (buy_signals ranked_pairs) \<longleftrightarrow>
      (p, d) \<in> set ranked_pairs \<and> signal d = ''BUY'' \<and> buy d \<ge> 13)
   \<and> ((p, d) \<in> set (buy_signals ranked_pairs) \<longleftrightarrow>
      (p, d) \<in> set ranked_pairs \<and> signal d = ''BUY'' \<and> buy d \<ge> STRONG_SELL_THRESHOLD)
   \<and> STRONG_SELL_THRESHOLD = 13
   \<and> (map_of tech (pair_of coin) = Some d' \<longrightarrow>
        sell_step ev tech (coin, q) acc =
          (if signal d' = ''SELL'' \<and> sell d' \<ge> STRONG_SELL_THRESHOLD
           then sell_position ev STRONG_SELL coin (pair_of coin) q acc else acc))"
  by (auto simp: buy_signals_def STRONG_SELL_THRESHOLD_def sell_step_def Let_def)

theorem strong_buy_selection_witness:
  "(''ETH/USD'', ex_eth_buy) \<in> set (buy_signals [(''ETH/USD'', ex_eth_buy), (''BTC/USD'', ex_btc_sell)])
   \<and> (''ETH/USD'', ex_eth_buy\<lparr>buy := 12\<rparr>)
        \<notin> set (buy_signals [(''ETH/USD'', ex_eth_buy\<lparr>buy := 12\<rparr>)])
   \<and> sell_step ex_env [(''BTC/USD'', ex_btc_sell)] (''BTC'', 3 / 2) (ex_state, 0)
       = sell_position ex_env STRONG_SELL ''BTC'' ''BTC/USD'' (3 / 2) (ex_state, 0)"
proof -
  note a = strong_buy_selection
      [where p = "''ETH/USD''" and d = ex_eth_buy
         and ranked_pairs = "[(''ETH/USD'', ex_eth_buy), (''BTC/USD'', ex_btc_sell)]"
         and tech = "[(''BTC/USD'', ex_btc_sell)]" and coin = "''BTC''" and d' = ex_btc_sell
         and ev = ex_env and q = "3 / 2" and acc = "(ex_state, 0)"]
  note b = strong_buy_selection
      [where p = "''ETH/USD''" and d = "ex_eth_buy\<lparr>buy := 12\<rparr>"
         and ranked_pairs = "[(''ETH/USD'', ex_eth_buy\<lparr>buy := 12\<rparr>)]", THEN conjunct1]
  have 1: "(''ETH/USD'', ex_eth_buy) \<in> set (buy_signals [(''ETH/USD'', ex_eth_buy), (''BTC/USD'', ex_btc_sell)])"
    using a[THEN conjunct1] by (simp add: ex_eth_buy_def)
  have 2: "(''ETH/USD'', ex_eth_buy\<lparr>buy := 12\<rparr>)
        \<notin> set (buy_signals [(''ETH/USD'', ex_eth_buy\<lparr>buy := 12\<rparr>)])"
    using b by simp
  have 3: "sell_step ex_env [(''BTC/USD'', ex_btc_sell)] (''BTC'', 3 / 2) (ex_state, 0)
       = sell_position ex_env STRONG_SELL ''BTC'' ''BTC/USD'' (3 / 2) (ex_state, 0)"
    using a[THEN conjunct2, THEN conjunct2, THEN conjunct2]
    by (simp add: ex_btc_sell_def pair_of_def STRONG_SELL_THRESHOLD_def)
  from 1 2 3 show ?thesis by blast
qed

subsection \<open>The sell phases read the positions taken at cycle start\<close>

text \<open>
  Claim C5, as the code has it. One full cycle enumerates the positions once, from the
  balance fetched at its start, and hands that same enumeration to the strong-sell phase
  and to the weak-sell funding phase. So for every enumerated position with a signal, a
  precision rule and a positive truncated quantity: if its signal is SELL with at least
  \<open>STRONG_SELL_THRESHOLD\<close> sell votes, the strong-sell phase places a sell order for the
  truncated cycle-start quantity; and if it has at least \<open>WEAK_SELL_THRESHOLD\<close> sell votes
  and a strong-buy candidate exists, the funding phase places one too. Neither depends on
  what an earlier phase of the cycle sold.
\<close>

theorem sell_phases_use_cycle_start_positions:
  assumes "get_balance snap = Some bd"
    and "(coin, q) \<in> set (get_current_positions (Some bd))"
    and "map_of (get_all_technicals snap) (pair_of coin) = Some d"
    and "PAIR_PRECISION ev (pair_of coin) = Some p"
    and "adjust_quantity p q > 0"
  shows "(signal d = ''SELL'' \<and> sell d \<ge> STRONG_SELL_THRESHOLD \<longrightarrow>
           (\<exists>res. Placed STRONG_SELL
                    \<lparr>o_pair = pair_of coin, o_side = SELL, o_quantity = adjust_quantity p q\<rparr> res
                  \<in> set (logged st (trading_cycle ev snap st))))
       \<and> (sell d \<ge> WEAK_SELL_THRESHOLD
            \<and> buy_signals (rank_pairs_by_technicals (get_all_technicals snap)) \<noteq> [] \<longrightarrow>
           (\<exists>res. Placed WEAK_SELL_REBALANCE
                    \<lparr>o_pair = pair_of coin, o_side = SELL, o_quantity = adjust_quantity p q\<rparr> res
                  \<in> set (logged st (trading_cycle ev snap st))))"
proof -
  let ?tech = "get_all_technicals snap"
  let ?pos = "get_current_positions (Some bd)"
  let ?coins = "fst ` set ?pos"
  let ?ord = "\<lparr>o_pair = pair_of coin, o_side = SELL, o_quantity = adjust_quantity p q\<rparr>"
  from assms(3) have tech: "?tech \<noteq> []" by auto
  from assms(1) tech obtain st2 c where
    a: "adds_only (\<lambda>e. e = Enter FULL_CYCLE \<or> e = Enter TP_SL_SELLS
                   \<or> is_check ?coins e \<or> sell_of {TP, SL, UNKNOWN} ?coins e) st st2"
    and eq: "trading_cycle ev snap st =
           execute_buys ev (c + snd (execute_sells ev ?pos ?tech st2))
             (rank_pairs_by_technicals ?tech) ?pos ?tech
             (fst (execute_sells ev ?pos ?tech st2))"
    by (rule trading_cycle_split)
  let ?st3 = "fst (execute_sells ev ?pos ?tech st2)"
  let ?fin = "trading_cycle ev snap st"
  have 1: "adds_only (\<lambda>e. True) st st2" by (rule adds_only_True[OF a])
  have 2: "adds_only (\<lambda>e. True) st2 ?st3" by (rule adds_only_True[OF execute_sells_adds])
  have 3: "adds_only (\<lambda>e. True) ?st3 ?fin"
    unfolding eq by (rule adds_only_True[OF execute_buys_adds])
  have strong: "\<exists>res. Placed STRONG_SELL ?ord res \<in> set (logged st ?fin)"
    if "signal d = ''SELL''" "sell d \<ge> STRONG_SELL_THRESHOLD"
  proof -
    from execute_sells_places[OF assms(2,3) that assms(4,5), of st2]
    obtain res where "Placed STRONG_SELL ?ord res \<in> set (logged st2 ?st3)" by blast
    with 1 2 have "Placed STRONG_SELL ?ord res \<in> set (logged st ?st3)"
      by (rule logged_mem_trans2)
    with adds_only_trans[OF 1 2] 3 have "Placed STRONG_SELL ?ord res \<in> set (logged st ?fin)"
      by (rule logged_mem_trans1)
    then show ?thesis ..
  qed
  have weak: "\<exists>res. Placed WEAK_SELL_REBALANCE ?ord res \<in> set (logged st ?fin)"
    if w: "sell d \<ge> WEAK_SELL_THRESHOLD"
      and cands: "buy_signals (rank_pairs_by_technicals ?tech) \<noteq> []"
  proof -
    let ?st4 = "emit (Enter BUYS) ?st3"
    let ?w = "execute_weak_sell_rebalancing ev ?pos ?tech ?st4"
    from execute_weak_sell_rebalancing_places[OF assms(2,3) w assms(4,5), of ?st4]
    obtain res where r: "Placed WEAK_SELL_REBALANCE ?ord res \<in> set (logged ?st4 (fst ?w))"
      by blast
    have 4: "adds_only (\<lambda>e. True) ?st3 ?st4" by (simp add: adds_only_emit)
    have 5: "adds_only (\<lambda>e. True) ?st4 (fst ?w)"
      by (rule adds_only_True[OF execute_weak_sell_rebalancing_adds])
    have "adds_only (\<lambda>e. True) s (fold (buy_step ev n x) (enumerate 0 cs) s)" for s n x cs
      by (rule adds_only_True[OF buy_loop_is_buy])
    then have 6: "adds_only (\<lambda>e. True) (fst ?w) ?fin"
      unfolding eq using cands
      by (auto simp: execute_buys_def Let_def adds_only_refl split: prod.splits)
    have s4: "adds_only (\<lambda>e. True) st ?st4"
      using 1 2 4 by (blast intro: adds_only_trans)
    from s4 5 r have "Placed WEAK_SELL_REBALANCE ?ord res \<in> set (logged st (fst ?w))"
      by (rule logged_mem_trans2)
    with adds_only_trans[OF s4 5] 6
    have "Placed WEAK_SELL_REBALANCE ?ord res \<in> set (logged st ?fin)"
      by (rule logged_mem_trans1)
    then show ?thesis ..
  qed
  from strong weak show ?thesis by blast
qed

theorem sell_phases_use_cycle_start_positions_witness:
  "(\<exists>res. Placed STRONG_SELL \<lparr>o_pair = ''BTC/USD'', o_side = SELL, o_quantity = 1\<rparr> res
            \<in> set (logged ex_state (trading_cycle ex_env ex_cycle ex_state)))
   \<and> (\<exists>res. Placed WEAK_SELL_REBALANCE \<lparr>o_pair = ''BTC/USD'', o_side = SELL, o_quantity = 1\<rparr> res
            \<in> set (logged ex_state (trading_cycle ex_env ex_cycle ex_state)))"
proof -
  have h: "get_balance ex_cycle = Some (ex_wallet (3 / 2))"
    "(''BTC'', 3 / 2) \<in> set (get_current_positions (Some (ex_wallet (3 / 2))))"
    "map_of (get_all_technicals ex_cycle) (pair_of ''BTC'') = Some ex_btc_sell"
    "PAIR_PRECISION ex_env (pair_of ''BTC'') = Some 0"
    "adjust_quantity 0 (3 / 2) > 0"
    by (simp_all add: ex_defs get_current_positions_def pair_of_def adjust_quantity_def)
  have c: "signal ex_btc_sell = ''SELL'' \<and> sell ex_btc_sell \<ge> STRONG_SELL_THRESHOLD"
    "sell ex_btc_sell \<ge> WEAK_SELL_THRESHOLD
       \<and> buy_signals (rank_pairs_by_technicals (get_all_technicals ex_cycle)) \<noteq> []"
    by (simp_all add: ex_defs STRONG_SELL_THRESHOLD_def WEAK_SELL_THRESHOLD_def buy_signals_def
          rank_pairs_by_technicals_def)
  have q: "adjust_quantity 0 (3 / 2) = 1" "pair_of ''BTC'' = ''BTC/USD''"
    by (simp_all add: adjust_quantity_def pair_of_def)
  show ?thesis
    using sell_phases_use_cycle_start_positions[OF h, of ex_state] c
    unfolding q by blast
qed

text \<open>
  The claim as the specification states it fails: with a gateway that fills every order,
  the stop-loss sale of the whole BTC position is followed, in the same cycle, by a
  strong-sell order and by a funding order for the same position.
\<close>

theorem sold_position_sold_again:
  "trace (trading_cycle ex_env ex_cycle ex_state) =
     [Enter FULL_CYCLE, Checked ''BTC'' STOP_LOSS, Enter TP_SL_SELLS,
      Placed SL \<lparr>o_pair = ''BTC/USD'', o_side = SELL, o_quantity = 1\<rparr>
        (Some \<lparr>UnitChange = 90, FilledQuantity = 1\<rparr>),
      Enter SELLS,
      Placed STRONG_SELL \<lparr>o_pair = ''BTC/USD'', o_side = SELL, o_quantity = 1\<rparr>
        (Some \<lparr>UnitChange = 90, FilledQuantity = 1\<rparr>),
      Enter BUYS, Enter WEAK_SELL_REBALANCING,
      Placed WEAK_SELL_REBALANCE \<lparr>o_pair = ''BTC/USD'', o_side = SELL, o_quantity = 1\<rparr>
        (Some \<lparr>UnitChange = 90, FilledQuantity = 1\<rparr>)]"
  by (simp add: ex_defs run_defs)

subsection \<open>Funding runs exactly when a strong buy exists\<close>

text \<open>
  Claim C6. In one full cycle the weak-sell funding liquidation is entered exactly when the
  cycle got its balance and its ranked signals hold at least one strong-buy candidate (a
  cycle without balance ends before it fetches any signal). With no strong-buy candidate
  no funding sell is placed in the cycle, and the buy phase leaves ledger and log as they
  were but for its own header.
\<close>

theorem funding_iff_strong_buy:
  "trace (trading_cycle ev snap st) = trace st @ logged st (trading_cycle ev snap st)
   \<and> (Enter WEAK_SELL_REBALANCING \<in> set (logged st (trading_cycle ev snap st)) \<longleftrightarrow>
        get_balance snap \<noteq> None
        \<and> buy_signals (rank_pairs_by_technicals (get_all_technicals snap)) \<noteq> [])
   \<and> (buy_signals (rank_pairs_by_technicals (get_all_technicals snap)) = [] \<longrightarrow>
        (\<forall>ord res. Placed WEAK_SELL_REBALANCE ord res
                     \<notin> set (logged st (trading_cycle ev snap st))))
   \<and> (buy_signals ranked = [] \<longrightarrow>
        execute_buys ev cash ranked positions tech st = emit (Enter BUYS) st)"
proof (intro conjI impI allI)
  show "trace (trading_cycle ev snap st) = trace st @ logged st (trading_cycle ev snap st)"
    using adds_only_logged[OF trading_cycle_adds] by blast
  show "Enter WEAK_SELL_REBALANCING \<in> set (logged st (trading_cycle ev snap st)) \<longleftrightarrow>
        get_balance snap \<noteq> None
        \<and> buy_signals (rank_pairs_by_technicals (get_all_technicals snap)) \<noteq> []"
  proof
    assume in_log: "Enter WEAK_SELL_REBALANCING \<in> set (logged st (trading_cycle ev snap st))"
    have "buy_signals (rank_pairs_by_technicals (get_all_technicals snap)) \<noteq> []"
      using adds_only_not_logged[OF trading_cycle_no_funding,
          of snap "Enter WEAK_SELL_REBALANCING" st ev] in_log
      by auto
    moreover have "get_balance snap \<noteq> None"
    proof
      assume "get_balance snap = None"
      then have "trading_cycle ev snap st = emit (Enter FULL_CYCLE) st"
        by (simp add: trading_cycle_early)
      with in_log show False by (simp add: logged_emit)
    qed
    ultimately show "get_balance snap \<noteq> None
        \<and> buy_signals (rank_pairs_by_technicals (get_all_technicals snap)) \<noteq> []" by simp
  next
    assume "get_balance snap \<noteq> None
        \<and> buy_signals (rank_pairs_by_technicals (get_all_technicals snap)) \<noteq> []"
    then show "Enter WEAK_SELL_REBALANCING \<in> set (logged st (trading_cycle ev snap st))"
      by (simp add: trading_cycle_funding)
  qed
next
  fix ord res
  assume "buy_signals (rank_pairs_by_technicals (get_all_technicals snap)) = []"
  then show "Placed WEAK_SELL_REBALANCE ord res \<notin> set (logged st (trading_cycle ev snap st))"
    by (rule adds_only_not_logged[OF trading_cycle_no_funding]) simp
next
  assume "buy_signals ranked = []"
  then show "execute_buys ev cash ranked positions tech st = emit (Enter BUYS) st"
    by (rule execute_buys_no_candidates)
qed

theorem funding_iff_strong_buy_witness:
  "Enter WEAK_SELL_REBALANCING \<in> set (logged ex_state (trading_cycle ex_env ex_cycle ex_state))
   \<and> Enter WEAK_SELL_REBALANCING
       \<notin> set (logged ex_state (trading_cycle ex_env
            (ex_cycle\<lparr>get_all_technicals := [(''BTC/USD'', ex_btc_sell)]\<rparr>) ex_state))
   \<and> Placed WEAK_SELL_REBALANCE \<lparr>o_pair = ''BTC/USD'', o_side = SELL, o_quantity = 1\<rparr>
         (Some \<lparr>UnitChange = 90, FilledQuantity = 1\<rparr>)
       \<notin> set (logged ex_state (trading_cycle ex_env
            (ex_cycle\<lparr>get_all_technicals := [(''BTC/USD'', ex_btc_sell)]\<rparr>) ex_state))"
proof -
  let ?quiet = "ex_cycle\<lparr>get_all_technicals := [(''BTC/USD'', ex_btc_sell)]\<rparr>"
  have yes: "get_balance ex_cycle \<noteq> None
      \<and> buy_signals (rank_pairs_by_technicals (get_all_technicals ex_cycle)) \<noteq> []"
    by (simp add: ex_defs buy_signals_def rank_pairs_by_technicals_def STRONG_SELL_THRESHOLD_def)
  have no: "buy_signals (rank_pairs_by_technicals (get_all_technicals ?quiet)) = []"
    by (simp add: ex_defs buy_signals_def rank_pairs_by_technicals_def)
  note a = funding_iff_strong_buy[where ev = ex_env and snap = ex_cycle and st = ex_state]
  note b = funding_iff_strong_buy[where ev = ex_env and snap = ?quiet and st = ex_state]
  have 1: "Enter WEAK_SELL_REBALANCING
             \<in> set (logged ex_state (trading_cycle ex_env ex_cycle ex_state))"
    using a[THEN conjunct2, THEN conjunct1] yes by blast
  have 2: "Enter WEAK_SELL_REBALANCING
             \<notin> set (logged ex_state (trading_cycle ex_env ?quiet ex_state))"
    using b[THEN conjunct2, THEN conjunct1] no by blast
  have 3: "Placed WEAK_SELL_REBALANCE \<lparr>o_pair = ''BTC/USD'', o_side = SELL, o_quantity = 1\<rparr>
         (Some \<lparr>UnitChange = 90, FilledQuantity = 1\<rparr>)
       \<notin> set (logged ex_state (trading_cycle ex_env ?quiet ex_state))"
    using b[THEN conjunct2, THEN conjunct2, THEN conjunct1] no by blast
  from 1 2 3 show ?thesis by blast
qed

subsection \<open>Ledger entries after a liquidating sell\<close>

text \<open>
  Claim C7, as the code has it. A successful liquidating sell, for whichever reason,
  keeps the ledger entry of the coin and sets its quantity to 0; no step of a scheduler
  tick, full cycle included and whether or not a call raises, removes a ledger entry. The positions a check enumerates are
  read from the balance response alone: the quick check examines exactly the coins of
  \<open>get_current_positions\<close>, in that order, whatever the ledger holds for them.
\<close>

theorem ledger_entry_zeroed_and_kept:
  "(PAIR_PRECISION ev pair = Some p \<and> adjust_quantity p q > 0
      \<and> place_order ev (trace st)
           \<lparr>o_pair = pair, o_side = SELL, o_quantity = adjust_quantity p q\<rparr> = Some od
      \<and> ledger st coin = Some e \<longrightarrow>
      ledger (fst (sell_position ev why coin pair q (st, t)))
        = (ledger st)(coin \<mapsto> e\<lparr>quantity := 0\<rparr>))
   \<and> dom (ledger st) \<subseteq> dom (ledger (snd (tick ev answers_full answers_quick (sc, st))))
   \<and> (get_balance snap = Some bd \<and> get_ticker snap = Some td \<and> Data td \<noteq> [] \<longrightarrow>
        checked_coins (logged st (fst (quick_tp_sl_check_and_sell ev snap st)))
          = map fst (get_current_positions (Some bd)))"
proof (intro conjI impI)
  assume "PAIR_PRECISION ev pair = Some p \<and> adjust_quantity p q > 0
      \<and> place_order ev (trace st)
           \<lparr>o_pair = pair, o_side = SELL, o_quantity = adjust_quantity p q\<rparr> = Some od
      \<and> ledger st coin = Some e"
  then show "ledger (fst (sell_position ev why coin pair q (st, t)))
        = (ledger st)(coin \<mapsto> e\<lparr>quantity := 0\<rparr>)"
    by (simp add: sell_position_success zero_quantity_def)
next
  show "dom (ledger st) \<subseteq> dom (ledger (snd (tick ev answers_full answers_quick (sc, st))))"
    by (rule tick_dom)
next
  assume "get_balance snap = Some bd \<and> get_ticker snap = Some td \<and> Data td \<noteq> []"
  then show "checked_coins (logged st (fst (quick_tp_sl_check_and_sell ev snap st)))
          = map fst (get_current_positions (Some bd))"
    by (simp add: quick_checked)
qed

theorem ledger_entry_zeroed_and_kept_witness:
  "ledger (fst (sell_position ex_env TP ''BTC'' ''BTC/USD'' (3 / 2) (ex_state, 0)))
     = ex_ledger(''BTC'' \<mapsto> \<lparr>buy_price = 100, quantity = 0, timestamp = None\<rparr>)
   \<and> checked_coins (logged ex_state (fst (quick_tp_sl_check_and_sell ex_env (ex_quick (1 / 2)) ex_state)))
       = [''BTC'']"
proof -
  have h: "PAIR_PRECISION ex_env ''BTC/USD'' = Some 0 \<and> adjust_quantity 0 (3 / 2) > 0
      \<and> place_order ex_env (trace ex_state)
           \<lparr>o_pair = ''BTC/USD'', o_side = SELL, o_quantity = adjust_quantity 0 (3 / 2)\<rparr>
          = Some \<lparr>UnitChange = 90, FilledQuantity = 1\<rparr>
      \<and> ledger ex_state ''BTC'' = Some \<lparr>buy_price = 100, quantity = 3 / 2, timestamp = None\<rparr>"
    by (simp add: ex_defs adjust_quantity_def)
  have g: "get_balance (ex_quick (1 / 2)) = Some (ex_wallet (1 / 2))
      \<and> get_ticker (ex_quick (1 / 2)) = Some \<lparr>Data = [(''BTC/USD'', \<lparr>LastPrice = 107\<rparr>)]\<rparr>
      \<and> Data \<lparr>Data = [(''BTC/USD'', \<lparr>LastPrice = 107\<rparr>)]\<rparr> \<noteq> []"
    by (simp add: ex_defs)
  have p: "map fst (get_current_positions (Some (ex_wallet (1 / 2)))) = [''BTC'']"
    by (simp add: ex_defs get_current_positions_def)
  note a = ledger_entry_zeroed_and_kept
      [where ev = ex_env and pair = "''BTC/USD''" and p = 0 and q = "3 / 2" and st = ex_state
         and od = "\<lparr>UnitChange = 90, FilledQuantity = 1\<rparr>" and coin = "''BTC''"
         and e = "\<lparr>buy_price = 100, quantity = 3 / 2, timestamp = None\<rparr>" and why = TP
         and t = 0 and snap = "ex_quick (1 / 2)" and bd = "ex_wallet (1 / 2)"
         and td = "\<lparr>Data = [(''BTC/USD'', \<lparr>LastPrice = 107\<rparr>)]\<rparr>"]
  have 1: "ledger (fst (sell_position ex_env TP ''BTC'' ''BTC/USD'' (3 / 2) (ex_state, 0)))
     = ex_ledger(''BTC'' \<mapsto> \<lparr>buy_price = 100, quantity = 0, timestamp = None\<rparr>)"
    using a[THEN conjunct1] h by (simp add: ex_state_def)
  have 2: "checked_coins (logged ex_state
             (fst (quick_tp_sl_check_and_sell ex_env (ex_quick (1 / 2)) ex_state))) = [''BTC'']"
    using a[THEN conjunct2, THEN conjunct2] g p by simp
  from 1 2 show ?thesis by blast
qed

text \<open>
  The claim as the specification states it fails in its last part: after the take-profit
  sale of the tradable 1 of 1.5 BTC the ledger entry stands at quantity 0, while the
  0.5 BTC left in the wallet keep BTC among the enumerated positions, and the next quick
  check examines it again.
\<close>

theorem zeroed_entry_still_enumerated:
  "ledger (fst (quick_tp_sl_check_and_sell ex_env (ex_quick (3 / 2)) ex_state)) ''BTC''
     = Some \<lparr>buy_price = 100, quantity = 0, timestamp = None\<rparr>
   \<and> get_current_positions (get_balance (ex_quick (1 / 2))) = [(''BTC'', 1 / 2)]
   \<and> trace (fst (quick_tp_sl_check_and_sell ex_env (ex_quick (1 / 2))
        (fst (quick_tp_sl_check_and_sell ex_env (ex_quick (3 / 2)) ex_state))))
      = [Checked ''BTC'' TAKE_PROFIT,
         Placed TP \<lparr>o_pair = ''BTC/USD'', o_side = SELL, o_quantity = 1\<rparr>
           (Some \<lparr>UnitChange = 90, FilledQuantity = 1\<rparr>),
         Checked ''BTC'' TAKE_PROFIT]"
  by (simp add: ex_defs run_defs)

subsection \<open>Cash and dust are not positions\<close>

text \<open>
  Claim C10. \<open>get_current_positions\<close> lists exactly the wallet assets other than USD whose
  \<open>Free + Lock\<close> exceeds \<open>1e-8\<close>, with that total as quantity; so every enumerated quantity
  is above \<open>1e-8\<close>. Every TP/SL check and every sell order of the quick check and of the
  full cycle concerns an enumerated coin, and removing the holdings at or below \<open>1e-8\<close> from
  the wallet changes neither the enumeration nor the portfolio value.
\<close>

theorem positions_exclude_cash_and_dust:
  "((coin, q) \<in> set (get_current_positions bd) \<longleftrightarrow>
      (\<exists>b a. bd = Some b \<and> Success b \<and> (coin, a) \<in> set (SpotWallet b) \<and>
         q = Free a + Lock a \<and> coin \<noteq> ''USD'' \<and> q > 1 / 10 ^ 8))
   \<and> list_all
        (\<lambda>e. (\<forall>c v. e = Checked c v \<longrightarrow> c \<in> fst ` set (get_current_positions (get_balance snap)))
            \<and> (\<forall>r ord res. e = Placed r ord res \<and> o_side ord = SELL \<longrightarrow>
                 o_pair ord \<in> pair_of ` fst ` set (get_current_positions (get_balance snap))))
        (logged st (fst (quick_tp_sl_check_and_sell ev snap st)))
   \<and> list_all
        (\<lambda>e. (\<forall>c v. e = Checked c v \<longrightarrow> c \<in> fst ` set (get_current_positions (get_balance snap)))
            \<and> (\<forall>r ord res. e = Placed r ord res \<and> o_side ord = SELL \<longrightarrow>
                 o_pair ord \<in> pair_of ` fst ` set (get_current_positions (get_balance snap))))
        (logged st (trading_cycle ev snap st))
   \<and> get_current_positions
        (Some (b\<lparr>SpotWallet := [(c, a) \<leftarrow> SpotWallet b. Free a + Lock a > 1 / 10 ^ 8]\<rparr>))
      = get_current_positions (Some b)
   \<and> get_total_portfolio_value
        (Some (b\<lparr>SpotWallet := [(c, a) \<leftarrow> SpotWallet b. Free a + Lock a > 1 / 10 ^ 8]\<rparr>)) td
      = get_total_portfolio_value (Some b) td"
proof -
  let ?coins = "fst ` set (get_current_positions (get_balance snap))"
  let ?P = "\<lambda>e. (\<forall>c v. e = Checked c v \<longrightarrow> c \<in> ?coins)
            \<and> (\<forall>r ord res. e = Placed r ord res \<and> o_side ord = SELL \<longrightarrow>
                 o_pair ord \<in> pair_of ` ?coins)"
  have "adds_only ?P st (fst (quick_tp_sl_check_and_sell ev snap st))"
    by (rule adds_only_mono[OF quick_adds]) (auto simp: is_check_def sell_of_def)
  then have 1: "list_all ?P (logged st (fst (quick_tp_sl_check_and_sell ev snap st)))"
    by (simp add: adds_only_logged)
  have "adds_only ?P st (trading_cycle ev snap st)"
    by (rule adds_only_mono[OF trading_cycle_adds]) (auto simp: is_check_def sell_of_def is_buy_def)
  then have 2: "list_all ?P (logged st (trading_cycle ev snap st))"
    by (simp add: adds_only_logged)
  have 3: "get_total_portfolio_value
        (Some (b\<lparr>SpotWallet := [(c, a) \<leftarrow> SpotWallet b. Free a + Lock a > 1 / 10 ^ 8]\<rparr>)) td
      = get_total_portfolio_value (Some b) td"
    unfolding get_total_portfolio_value_def get_current_positions_dust ..
  from 1 2 3 show ?thesis
    using get_current_positions_iff[of coin q bd] get_current_positions_dust[of b] by blast
qed

theorem positions_exclude_cash_and_dust_witness:
  "get_current_positions (Some \<lparr>Success = True,
      SpotWallet = [(''USD'', \<lparr>Free = 100, Lock = 0\<rparr>), (''BTC'', \<lparr>Free = 1 / 2, Lock = 1\<rparr>),
                    (''ETH'', \<lparr>Free = 1 / 10 ^ 8, Lock = 0\<rparr>)]\<rparr>)
     = [(''BTC'', 3 / 2)]
   \<and> (''USD'', 100) \<notin> set (get_current_positions (Some (ex_wallet (3 / 2))))
   \<and> (''BTC'', 3 / 2) \<in> set (get_current_positions (Some (ex_wallet (3 / 2))))"
proof -
  have 1: "(''USD'', 100) \<notin> set (get_current_positions (Some (ex_wallet (3 / 2))))"
    using positions_exclude_cash_and_dust
      [where bd = "Some (ex_wallet (3 / 2))" and coin = "''USD''" and q = 100, THEN conjunct1]
    by simp
  have 2: "(''BTC'', 3 / 2) \<in> set (get_current_positions (Some (ex_wallet (3 / 2))))"
    using positions_exclude_cash_and_dust
      [where bd = "Some (ex_wallet (3 / 2))" and coin = "''BTC''" and q = "3 / 2", THEN conjunct1]
    by (simp add: ex_wallet_def)
  have 3: "get_current_positions (Some \<lparr>Success = True,
      SpotWallet = [(''USD'', \<lparr>Free = 100, Lock = 0\<rparr>), (''BTC'', \<lparr>Free = 1 / 2, Lock = 1\<rparr>),
                    (''ETH'', \<lparr>Free = 1 / 10 ^ 8, Lock = 0\<rparr>)]\<rparr>)
     = [(''BTC'', 3 / 2)]"
    by (simp add: get_current_positions_def)
  from 1 2 3 show ?thesis by blast
qed

subsection \<open>Positions without data\<close>

text \<open>
  Claim C3. A held position without a positive cost basis or without a positive current
  price is to be skipped as no-data by both TP/SL checks. The quick check does so; the
  full-cycle check tests neither the cost basis nor the price. Evaluated on a ledger entry
  with cost basis 0 the full-cycle check reports SAFE where the quick check reports
  no-data, and on a signal with price 0 it reports STOP_LOSS where the quick check reports
  no-data: the cycle then sells the position.
\<close>

theorem full_cycle_check_lacks_guards:
  "cycle_verdict [''BTC'' \<mapsto> \<lparr>buy_price = 0, quantity = 3 / 2, timestamp = None\<rparr>]
      [(''BTC/USD'', ex_btc_sell)] ''BTC'' = SAFE
   \<and> quick_verdict [''BTC'' \<mapsto> \<lparr>buy_price = 0, quantity = 3 / 2, timestamp = None\<rparr>]
      [(''BTC/USD'', \<lparr>LastPrice = 90\<rparr>)] ''BTC'' = NO_DATA
   \<and> cycle_verdict ex_ledger [(''BTC/USD'', ex_btc_no_price)] ''BTC'' = STOP_LOSS
   \<and> quick_verdict ex_ledger [(''BTC/USD'', \<lparr>LastPrice = 0\<rparr>)] ''BTC'' = NO_DATA
   \<and> trace (trading_cycle ex_env
        (ex_cycle\<lparr>get_all_technicals := [(''BTC/USD'', ex_btc_no_price)]\<rparr>) ex_state)
      = [Enter FULL_CYCLE, Checked ''BTC'' STOP_LOSS, Enter TP_SL_SELLS,
         Placed SL \<lparr>o_pair = ''BTC/USD'', o_side = SELL, o_quantity = 1\<rparr>
           (Some \<lparr>UnitChange = 90, FilledQuantity = 1\<rparr>),
         Enter SELLS, Enter BUYS]
   \<and> trace (fst (quick_tp_sl_check_and_sell ex_env
        ((ex_quick (3 / 2))\<lparr>get_ticker := Some \<lparr>Data = [(''BTC/USD'', \<lparr>LastPrice = 0\<rparr>)]\<rparr>\<rparr>)
        ex_state))
      = [Checked ''BTC'' NO_DATA]"
  by (simp add: ex_defs run_defs)

subsection \<open>Exponential allocation\<close>

text \<open>
  Claim C4. With \<open>n \<ge> 1\<close> strong-buy candidates, the candidate at 0-based rank \<open>i\<close> is
  allotted \<open>cash_to_invest * 2^(n-i-1) / (\<Sum>j<n. 2^(n-j-1))\<close>, the sum ranging over all
  \<open>n\<close> candidates, so in exact arithmetic the allotments add up to \<open>cash_to_invest\<close>; for
  three candidates the weights are 4, 2, 1. In \<open>execute_buys\<close>, with more than 10 to
  invest, every candidate that passes the rejection rules (allotment at least 10, positive
  price, a precision rule, positive truncated quantity) is announced with the allotment of
  its rank among all candidates and gets a buy order for that allotment divided by its
  price, truncated; no announcement carries any other amount; and a rejected candidate
  leaves the state as it was, so its share goes to nobody.
\<close>

theorem exponential_allocation:
  "(n > 0 \<longrightarrow>
      (\<forall>i<n. allocation n i cash_to_invest
                = cash_to_invest * 2 ^ (n - i - 1) / (\<Sum>j<n. 2 ^ (n - j - 1)))
      \<and> (\<Sum>i<n. allocation n i cash_to_invest) = cash_to_invest)
   \<and> exponential_weights 3 = [4, 2, 1]
   \<and> list_all
       (\<lambda>e. \<forall>pair k a q. e = Buying pair k a q \<longrightarrow>
          (\<exists>i < length (buy_signals ranked). k = i + 1 \<and> pair = fst (buy_signals ranked ! i) \<and>
             a = allocation (length (buy_signals ranked)) i
                   (cash + snd (execute_weak_sell_rebalancing ev pos tech (emit (Enter BUYS) st))
                      - RESERVE_CASH)))
       (logged st (execute_buys ev cash ranked pos tech st))
   \<and> (i < length (buy_signals ranked) \<and> buy_signals ranked ! i = (pair, d)
        \<and> cash_to_invest
            = cash + snd (execute_weak_sell_rebalancing ev pos tech (emit (Enter BUYS) st))
                - RESERVE_CASH
        \<and> cash_to_invest > 10
        \<and> allocation (length (buy_signals ranked)) i cash_to_invest \<ge> 10 \<and> price d > 0
        \<and> PAIR_PRECISION ev pair = Some p
        \<and> adjust_quantity p
             (allocation (length (buy_signals ranked)) i cash_to_invest / price d) > 0
      \<longrightarrow>
        Buying pair (i + 1) (allocation (length (buy_signals ranked)) i cash_to_invest)
            (adjust_quantity p
               (allocation (length (buy_signals ranked)) i cash_to_invest / price d))
          \<in> set (logged st (execute_buys ev cash ranked pos tech st))
        \<and> (\<exists>res. Placed STRONG_BUY
               \<lparr>o_pair = pair, o_side = BUY,
                  o_quantity = adjust_quantity p
                    (allocation (length (buy_signals ranked)) i cash_to_invest / price d)\<rparr> res
             \<in> set (logged st (execute_buys ev cash ranked pos tech st))))
   \<and> (allocation n i cash_to_invest < 10 \<or> price d \<le> 0 \<or> PAIR_PRECISION ev pair = None
        \<or> (\<exists>p'. PAIR_PRECISION ev pair = Some p'
               \<and> adjust_quantity p' (allocation n i cash_to_invest / price d) \<le> 0)
      \<longrightarrow> buy_step ev n cash_to_invest (i, pair, d) st = st)"
proof (intro conjI impI allI)
  show "exponential_weights 3 = [4, 2, 1]"
    by (simp add: exponential_weights_def upt_rec numeral_3_eq_3)
  show "list_all
       (\<lambda>e. \<forall>pair k a q. e = Buying pair k a q \<longrightarrow>
          (\<exists>i < length (buy_signals ranked). k = i + 1 \<and> pair = fst (buy_signals ranked ! i) \<and>
             a = allocation (length (buy_signals ranked)) i
                   (cash + snd (execute_weak_sell_rebalancing ev pos tech (emit (Enter BUYS) st))
                      - RESERVE_CASH)))
       (logged st (execute_buys ev cash ranked pos tech st))"
    using adds_only_logged[OF execute_buys_allocations] by blast
next
  fix k assume "k < n"
  then show "allocation n k cash_to_invest
                = cash_to_invest * 2 ^ (n - k - 1) / (\<Sum>j<n. 2 ^ (n - j - 1))"
    by (rule allocation_formula)
next
  assume "n > 0"
  then show "(\<Sum>i<n. allocation n i cash_to_invest) = cash_to_invest"
    by (rule allocation_sum)
next
  assume h: "i < length (buy_signals ranked) \<and> buy_signals ranked ! i = (pair, d)
        \<and> cash_to_invest
            = cash + snd (execute_weak_sell_rebalancing ev pos tech (emit (Enter BUYS) st))
                - RESERVE_CASH
        \<and> cash_to_invest > 10
        \<and> allocation (length (buy_signals ranked)) i cash_to_invest \<ge> 10 \<and> price d > 0
        \<and> PAIR_PRECISION ev pair = Some p
        \<and> adjust_quantity p
             (allocation (length (buy_signals ranked)) i cash_to_invest / price d) > 0"
  note e = execute_buys_places[where ranked = ranked and i = i and pair = pair and d = d
      and c = cash_to_invest and cash = cash and ev = ev and pos = pos and tech = tech
      and st = st and p = p]
  from h e show "Buying pair (i + 1) (allocation (length (buy_signals ranked)) i cash_to_invest)
            (adjust_quantity p
               (allocation (length (buy_signals ranked)) i cash_to_invest / price d))
          \<in> set (logged st (execute_buys ev cash ranked pos tech st))"
    by blast
  from h e show "\<exists>res. Placed STRONG_BUY
               \<lparr>o_pair = pair, o_side = BUY,
                  o_quantity = adjust_quantity p
                    (allocation (length (buy_signals ranked)) i cash_to_invest / price d)\<rparr> res
             \<in> set (logged st (execute_buys ev cash ranked pos tech st))"
    by blast
next
  assume "allocation n i cash_to_invest < 10 \<or> price d \<le> 0 \<or> PAIR_PRECISION ev pair = None
        \<or> (\<exists>p'. PAIR_PRECISION ev pair = Some p'
               \<and> adjust_quantity p' (allocation n i cash_to_invest / price d) \<le> 0)"
  then show "buy_step ev n cash_to_invest (i, pair, d) st = st"
    by (rule buy_step_skips)
qed

theorem exponential_allocation_witness:
  "allocation 3 0 700 = 400 \<and> allocation 3 1 700 = 200 \<and> allocation 3 2 700 = 100
   \<and> (\<Sum>i<3. allocation 3 i 700) = 700
   \<and> Buying ''ADA/USD'' 3 100 33
        \<in> set (logged ex_state (execute_buys ex_buy_env 20700 ex_ranked [] [] ex_state))
   \<and> (\<exists>res. Placed STRONG_BUY \<lparr>o_pair = ''ADA/USD'', o_side = BUY, o_quantity = 33\<rparr> res
        \<in> set (logged ex_state (execute_buys ex_buy_env 20700 ex_ranked [] [] ex_state)))
   \<and> buy_step ex_buy_env 3 700 (1, ''SOL/USD'', ex_sol_buy) ex_state = ex_state
   \<and> trace (execute_buys ex_buy_env 20700 ex_ranked [] [] ex_state) =
       [Enter BUYS, Enter WEAK_SELL_REBALANCING,
        Buying ''ETH/USD'' 1 400 40,
        Placed STRONG_BUY \<lparr>o_pair = ''ETH/USD'', o_side = BUY, o_quantity = 40\<rparr>
          (Some \<lparr>UnitChange = 90, FilledQuantity = 40\<rparr>),
        Buying ''ADA/USD'' 3 100 33,
        Placed STRONG_BUY \<lparr>o_pair = ''ADA/USD'', o_side = BUY, o_quantity = 33\<rparr>
          (Some \<lparr>UnitChange = 90, FilledQuantity = 33\<rparr>)]"
proof -
  have "(0::nat) < 3" by simp
  note a = exponential_allocation[where n = 3 and cash_to_invest = 700, THEN conjunct1,
      rule_format, OF this]
  have s: "(\<Sum>j<3. (2::real) ^ (3 - j - 1)) = 7"
    by (simp add: lessThan_nat_numeral lessThan_Suc numeral_3_eq_3)
  have al: "allocation 3 0 700 = 400" "allocation 3 1 700 = 200" "allocation 3 2 700 = 100"
    using a[THEN conjunct1] s by simp_all
  have sum: "(\<Sum>i<3. allocation 3 i 700) = 700" by (rule a[THEN conjunct2])
  have cands: "buy_signals ex_ranked = ex_ranked" "length ex_ranked = 3"
    "ex_ranked ! 2 = (''ADA/USD'', ex_ada_buy)"
    by (simp_all add: buy_signals_def ex_defs STRONG_SELL_THRESHOLD_def)
  have w: "snd (execute_weak_sell_rebalancing ex_buy_env [] [] (emit (Enter BUYS) ex_state)) = 0"
    by (simp add: execute_weak_sell_rebalancing_def)
  have adj: "adjust_quantity 0 (100 / 3) = 33" by (simp add: adjust_quantity_def)
  have hyp: "2 < length (buy_signals ex_ranked)
        \<and> buy_signals ex_ranked ! 2 = (''ADA/USD'', ex_ada_buy)
        \<and> (700::real)
            = 20700 + snd (execute_weak_sell_rebalancing ex_buy_env [] [] (emit (Enter BUYS) ex_state))
                - RESERVE_CASH
        \<and> (700::real) > 10
        \<and> allocation (length (buy_signals ex_ranked)) 2 700 \<ge> 10 \<and> price ex_ada_buy > 0
        \<and> PAIR_PRECISION ex_buy_env ''ADA/USD'' = Some 0
        \<and> adjust_quantity 0
             (allocation (length (buy_signals ex_ranked)) 2 700 / price ex_ada_buy) > 0"
    by (simp add: cands w al RESERVE_CASH_def)
       (simp add: ex_defs adjust_quantity_def)
  note b = exponential_allocation[where ranked = ex_ranked and i = 2 and pair = "''ADA/USD''"
      and d = ex_ada_buy and cash_to_invest = 700 and cash = 20700 and ev = ex_buy_env
      and pos = "[]" and tech = "[]" and st = ex_state and p = 0,
      THEN conjunct2, THEN conjunct2, THEN conjunct2, THEN conjunct1, rule_format, OF hyp]
  have pr: "price ex_ada_buy = 3" by (simp add: ex_ada_buy_def)
  have buy: "Buying ''ADA/USD'' 3 100 33
        \<in> set (logged ex_state (execute_buys ex_buy_env 20700 ex_ranked [] [] ex_state))"
    "\<exists>res. Placed STRONG_BUY \<lparr>o_pair = ''ADA/USD'', o_side = BUY, o_quantity = 33\<rparr> res
        \<in> set (logged ex_state (execute_buys ex_buy_env 20700 ex_ranked [] [] ex_state))"
    using b by (simp_all add: cands al pr adj)
  have none: "allocation 3 1 700 < 10 \<or> price ex_sol_buy \<le> 0
        \<or> PAIR_PRECISION ex_buy_env ''SOL/USD'' = None
        \<or> (\<exists>p'. PAIR_PRECISION ex_buy_env ''SOL/USD'' = Some p'
               \<and> adjust_quantity p' (allocation 3 1 700 / price ex_sol_buy) \<le> 0)"
    by (simp add: ex_defs)
  note c = exponential_allocation[where n = 3 and i = 1 and cash_to_invest = 700
      and d = ex_sol_buy and ev = ex_buy_env and pair = "''SOL/USD''" and st = ex_state,
      THEN conjunct2, THEN conjunct2, THEN conjunct2, THEN conjunct2, rule_format, OF none]
  have tr: "trace (execute_buys ex_buy_env 20700 ex_ranked [] [] ex_state) =
       [Enter BUYS, Enter WEAK_SELL_REBALANCING,
        Buying ''ETH/USD'' 1 400 40,
        Placed STRONG_BUY \<lparr>o_pair = ''ETH/USD'', o_side = BUY, o_quantity = 40\<rparr>
          (Some \<lparr>UnitChange = 90, FilledQuantity = 40\<rparr>),
        Buying ''ADA/USD'' 3 100 33,
        Placed STRONG_BUY \<lparr>o_pair = ''ADA/USD'', o_side = BUY, o_quantity = 33\<rparr>
          (Some \<lparr>UnitChange = 90, FilledQuantity = 33\<rparr>)]"
    by (simp add: ex_defs run_defs upt_rec[of 0])
  from al sum buy c tr show ?thesis by blast
qed

subsection \<open>The quick check within a scheduler tick\<close>

text \<open>
  Claim C9, as the code has it. The quick check logs nothing but the outcomes of its TP/SL
  checks and sell orders placed for TP or SL, and one of its iterations places an order
  only after a TAKE_PROFIT or STOP_LOSS outcome, for that reason: no strong-sell, funding
  or buy order. A tick on which the timer has not reached the full-cycle interval logs the
  header of the quick check followed by such lines only (and the handler's line when the
  quick check raises). On a tick where the timer has reached the interval the full cycle
  runs first, and when it returns the quick check runs on that same tick, on the state the
  cycle left. When an exception escapes the full cycle, the handler of the main loop takes
  over: the quick check of that tick does not run and the timer is not reset. So the
  quick check runs on a tick exactly when no exception has escaped a full cycle on it.
\<close>

theorem quick_check_runs_unless_cycle_raises:
  "list_all risk_line (logged st (fst (quick_tp_sl_check_and_sell ev snap st)))
   \<and> (time_since_full_cycle sc < FULL_TRADING_CYCLE_INTERVAL \<longrightarrow>
        (\<exists>qs. logged st (snd (tick ev answers_full answers_quick (sc, st)))
                 = Enter QUICK_CHECK # qs
              \<and> list_all (\<lambda>e. risk_line e \<or> e = Unhandled_error) qs))
   \<and> (time_since_full_cycle sc \<ge> FULL_TRADING_CYCLE_INTERVAL \<longrightarrow>
        (\<exists>cs qs. logged st (snd (tick ev (Answers snap_full) answers_quick (sc, st)))
                 = Enter FULL_CYCLE # cs @ Enter QUICK_CHECK # qs
              \<and> Enter FULL_CYCLE # cs = logged st (trading_cycle ev snap_full st)
              \<and> list_all (\<lambda>e. risk_line e \<or> e = Unhandled_error) qs)
        \<and> snd (tick ev (Answers snap_full) (Answers snap_quick) (sc, st)) =
            fst (quick_tp_sl_check_and_sell ev snap_quick
                   (emit (Enter QUICK_CHECK) (trading_cycle ev snap_full st)))
        \<and> tick ev Balance_fetch_raises answers_quick (sc, st) =
            (sc\<lparr>full_cycle_count := full_cycle_count sc + 1\<rparr>,
             emit Unhandled_error (emit (Enter FULL_CYCLE) st)))
   \<and> (Enter QUICK_CHECK \<in> set (logged st (snd (tick ev answers_full answers_quick (sc, st))))
        \<longleftrightarrow> \<not> (time_since_full_cycle sc \<ge> FULL_TRADING_CYCLE_INTERVAL
                \<and> answers_full = Balance_fetch_raises))
   \<and> (logged st (fst (quick_step ev td (coin, q) (st, t)))
         = [Checked coin (quick_verdict (ledger st) td coin)]
       \<or> (\<exists>p res. (quick_verdict (ledger st) td coin = TAKE_PROFIT
                       \<or> quick_verdict (ledger st) td coin = STOP_LOSS)
            \<and> PAIR_PRECISION ev (pair_of coin) = Some p \<and> adjust_quantity p q > 0
            \<and> logged st (fst (quick_step ev td (coin, q) (st, t)))
                = [Checked coin (quick_verdict (ledger st) td coin),
                   Placed (if quick_verdict (ledger st) td coin = TAKE_PROFIT then TP else SL)
                     \<lparr>o_pair = pair_of coin, o_side = SELL,
                        o_quantity = adjust_quantity p q\<rparr> res]))"
proof -
  let ?R = "\<lambda>e. risk_line e \<or> e = Unhandled_error"
  let ?trig = "time_since_full_cycle sc \<ge> FULL_TRADING_CYCLE_INTERVAL"
  have A: "list_all risk_line (logged st (fst (quick_tp_sl_check_and_sell ev snap st)))"
    using adds_only_logged[OF quick_risk_lines] by simp
  have B: "\<exists>qs. logged st (snd (tick ev af answers_quick (sc, st))) = Enter QUICK_CHECK # qs
              \<and> list_all ?R qs" if "\<not> ?trig" for af
    using quick_part_logged[OF adds_only_refl, where ev = ev and answers_quick = answers_quick
        and sc = sc and st = st] that
    by (simp add: tick_no_trigger logged_refl)
  have C: "\<exists>cs qs. logged st (snd (tick ev (Answers sf) answers_quick (sc, st)))
                 = Enter FULL_CYCLE # cs @ Enter QUICK_CHECK # qs
              \<and> Enter FULL_CYCLE # cs = logged st (trading_cycle ev sf st)
              \<and> list_all ?R qs" if "?trig" for sf
  proof -
    obtain cs where cs: "logged st (trading_cycle ev sf st) = Enter FULL_CYCLE # cs"
      using trading_cycle_starts by blast
    from quick_part_logged[OF trading_cycle_adds, where ev = ev and answers_quick = answers_quick
        and sc = "sc\<lparr>full_cycle_count := full_cycle_count sc + 1, time_since_full_cycle := 0\<rparr>"]
    obtain qs where "logged st (snd (quick_part ev answers_quick
          (sc\<lparr>full_cycle_count := full_cycle_count sc + 1, time_since_full_cycle := 0\<rparr>,
           trading_cycle ev sf st)))
        = logged st (trading_cycle ev sf st) @ Enter QUICK_CHECK # qs" and "list_all ?R qs"
      by blast
    with cs that show ?thesis by (simp add: tick_cycle_returns)
  qed
  have C': "snd (tick ev (Answers snap_full) (Answers snap_quick) (sc, st)) =
            fst (quick_tp_sl_check_and_sell ev snap_quick
                   (emit (Enter QUICK_CHECK) (trading_cycle ev snap_full st)))" if "?trig"
    using that by (simp add: tick_state)
  have D: "tick ev Balance_fetch_raises answers_quick (sc, st) =
            (sc\<lparr>full_cycle_count := full_cycle_count sc + 1\<rparr>,
             emit Unhandled_error (emit (Enter FULL_CYCLE) st))" if "?trig"
    using that by (rule tick_cycle_raises)
  have E: "Enter QUICK_CHECK \<in> set (logged st (snd (tick ev answers_full answers_quick (sc, st))))
        \<longleftrightarrow> \<not> (?trig \<and> answers_full = Balance_fetch_raises)"
  proof (cases ?trig)
    case False
    with B[OF False, of answers_full] show ?thesis by auto
  next
    case True
    show ?thesis
    proof (cases answers_full)
      case Balance_fetch_raises
      with True show ?thesis by (simp add: tick_cycle_raises logged_two_emits)
    next
      case (Answers sf)
      with C[OF True, of sf] True show ?thesis by auto
    qed
  qed
  note F = quick_step_logged[of st ev td coin q t]
  from A B C C' D E F show ?thesis by (simp add: not_le)
qed

theorem quick_check_runs_unless_cycle_raises_witness:
  "(\<exists>cs qs. logged ex_state (snd (tick ex_env (Answers ex_cycle) (Answers (ex_quick (1 / 2)))
                (\<lparr>time_since_full_cycle = 600, quick_check_count = 0, full_cycle_count = 0\<rparr>,
                 ex_state)))
              = Enter FULL_CYCLE # cs @ Enter QUICK_CHECK # qs)
   \<and> Enter QUICK_CHECK
        \<in> set (logged ex_state (snd (tick ex_env (Answers ex_cycle) (Answers (ex_quick (1 / 2)))
                (\<lparr>time_since_full_cycle = 600, quick_check_count = 0, full_cycle_count = 0\<rparr>,
                 ex_state))))"
proof -
  let ?sc = "\<lparr>time_since_full_cycle = 600, quick_check_count = 0, full_cycle_count = 0\<rparr>"
  have t: "time_since_full_cycle ?sc \<ge> FULL_TRADING_CYCLE_INTERVAL"
    by (simp add: FULL_TRADING_CYCLE_INTERVAL_def)
  note a = quick_check_runs_unless_cycle_raises
      [where ev = ex_env and snap_full = ex_cycle and answers_full = "Answers ex_cycle"
         and answers_quick = "Answers (ex_quick (1 / 2))" and st = ex_state and sc = ?sc]
  from a[THEN conjunct2, THEN conjunct2, THEN conjunct1, rule_format, OF t, THEN conjunct1]
  have 1: "\<exists>cs qs. logged ex_state (snd (tick ex_env (Answers ex_cycle)
               (Answers (ex_quick (1 / 2))) (?sc, ex_state)))
              = Enter FULL_CYCLE # cs @ Enter QUICK_CHECK # qs"
    by blast
  from a[THEN conjunct2, THEN conjunct2, THEN conjunct2, THEN conjunct1]
  have 2: "Enter QUICK_CHECK
        \<in> set (logged ex_state (snd (tick ex_env (Answers ex_cycle)
               (Answers (ex_quick (1 / 2))) (?sc, ex_state))))"
    by simp
  from 1 2 show ?thesis by blast
qed

text \<open>
  The claim as the specification states it fails: on a tick whose full-cycle trigger fires
  and whose balance response has a body that is not a JSON object, \<open>get_balance\<close> raises
  inside \<open>trading_cycle\<close>; the tick ends in the handler with the full cycle counted, the
  timer still at 600, and no quick check run.
\<close>

theorem full_cycle_exception_skips_quick_check:
  "tick ex_env Balance_fetch_raises (Answers (ex_quick (1 / 2)))
     (\<lparr>time_since_full_cycle = 600, quick_check_count = 0, full_cycle_count = 0\<rparr>, ex_state)
   = (\<lparr>time_since_full_cycle = 600, quick_check_count = 0, full_cycle_count = 1\<rparr>,
      \<lparr>ledger = ex_ledger, trace = [Enter FULL_CYCLE, Unhandled_error]\<rparr>)"
  by (simp add: tick_def trading_cycle_call_def Let_def emit_def ex_state_def
        FULL_TRADING_CYCLE_INTERVAL_def)

end
